theory Spec2Isabelle
  imports Main
begin

section \<open>Bril instructions, functions and programs\<close>

text \<open>
  The trace-to-speculation builder of \<^verbatim>\<open>cs6120/task 12/buildspec.ts\<close> works on the JSON
  form of Bril. An instruction is either a label (an object without an \<^verbatim>\<open>op\<close> field) or an
  operation, whose fields other than \<^verbatim>\<open>op\<close> are all optional in the code: it tests them with
  \<^verbatim>\<open>instr.dest !== undefined\<close>, \<^verbatim>\<open>instr.args && instr.dest\<close> and the like. An absent field is
  \<open>None\<close>. The field \<^verbatim>\<open>value\<close> of the source is called \<open>val\<close> here. As in Bril's JSON form, a
  type is a name or a parameterized type such as \<^verbatim>\<open>{"ptr": "int"}\<close>, and the literal of a \<^verbatim>\<open>const\<close>
  is a number, a boolean or a string.
\<close>

datatype bril_type = PrimType string | ParamType string bril_type

datatype 'n jsvalue = VNum 'n | VBool bool | VStr string

record 'n operation =
  op :: string
  dest :: "string option"
  type :: "bril_type option"
  args :: "string list option"
  val :: "'n jsvalue option"
  labels :: "string list option"
  funcs :: "string list option"

datatype 'n instruction = Label string | Op "'n operation"

text \<open>
  JavaScript truthiness of a value of type \<^verbatim>\<open>string | undefined\<close>: \<^verbatim>\<open>undefined\<close> and the
  empty string are falsy, every other string is truthy.
\<close>

fun truthy :: "string option \<Rightarrow> bool" where
  "truthy None = False"
| "truthy (Some s) = (s \<noteq> [])"

text \<open>
  The arithmetic of JavaScript numbers (IEEE 754 double precision) is not defined here. The
  type \<open>'n\<close> of numbers and the operations the code applies to them are parameters: the
  conversions that \<^verbatim>\<open>Number(v)\<close> performs on a boolean and on a string, and the three
  operators \<^verbatim>\<open>+\<close>, \<^verbatim>\<open>-\<close>, \<^verbatim>\<open>*\<close> on numbers. Every function below that folds constants takes
  such a record, and every theorem about it holds for each choice of the record, among them
  the double-precision one.
\<close>

record 'n js_arith =
  num_of_bool :: "bool \<Rightarrow> 'n"
  num_of_string :: "string \<Rightarrow> 'n"
  num_add :: "'n \<Rightarrow> 'n \<Rightarrow> 'n"
  num_sub :: "'n \<Rightarrow> 'n \<Rightarrow> 'n"
  num_mul :: "'n \<Rightarrow> 'n \<Rightarrow> 'n"

fun Number :: "'n js_arith \<Rightarrow> 'n jsvalue \<Rightarrow> 'n" where
  "Number A (VNum n) = n"
| "Number A (VBool b) = num_of_bool A b"
| "Number A (VStr s) = num_of_string A s"

text \<open>
  An arithmetic for the examples: numbers are mathematical integers. Double-precision
  addition, subtraction and multiplication agree with it on integers as long as operands and
  result stay below \<open>2 ^ 53\<close> in magnitude, and \<^verbatim>\<open>Number\<close> maps \<^verbatim>\<open>true\<close> to 1 and \<^verbatim>\<open>false\<close> to 0.
  No example below converts a string; the field is filled with \<^verbatim>\<open>Number("")\<close>, which is 0.
\<close>

definition small_int_arith :: "int js_arith" where
  "small_int_arith =
     \<lparr>num_of_bool = (\<lambda>b. if b then 1 else 0), num_of_string = (\<lambda>s. 0),
      num_add = (\<lambda>x y. x + y), num_sub = (\<lambda>x y. x - y), num_mul = (\<lambda>x y. x * y)\<rparr>"

section \<open>Trace Reducer: \<^verbatim>\<open>optimizeTrace\<close>\<close>

text \<open>
  The environment \<^verbatim>\<open>env\<close> is a \<^verbatim>\<open>Map\<close> that the code only reads with \<^verbatim>\<open>env.get\<close> and compares
  with \<^verbatim>\<open>undefined\<close>. So \<^verbatim>\<open>env.set(d, undefined)\<close> (a \<^verbatim>\<open>const\<close> without \<^verbatim>\<open>value\<close>) is the same as
  removing \<open>d\<close>, and the environment is a map from names to values in which \<open>None\<close> is
  \<^verbatim>\<open>undefined\<close>. \<^verbatim>\<open>const [x, y] = instr.args\<close> reads the first two arguments, \<^verbatim>\<open>undefined\<close>
  where the list is shorter; \<^verbatim>\<open>undefined\<close> is never a key of \<^verbatim>\<open>env\<close>.
\<close>

fun arg_at :: "string list \<Rightarrow> nat \<Rightarrow> string option" where
  "arg_at [] n = None"
| "arg_at (a # as) 0 = Some a"
| "arg_at (a # as) (Suc n) = arg_at as n"

fun env_get :: "(string \<rightharpoonup> 'n jsvalue) \<Rightarrow> string option \<Rightarrow> 'n jsvalue option" where
  "env_get env None = None"
| "env_get env (Some x) = env x"

definition fold_value :: "'n js_arith \<Rightarrow> string \<Rightarrow> 'n jsvalue \<Rightarrow> 'n jsvalue \<Rightarrow> 'n" where
  "fold_value A opc vx vy =
     (if opc = ''add'' then num_add A (Number A vx) (Number A vy)
      else if opc = ''sub'' then num_sub A (Number A vx) (Number A vy)
      else num_mul A (Number A vx) (Number A vy))"

definition folded_const :: "'n operation \<Rightarrow> 'n \<Rightarrow> 'n operation" where
  "folded_const i v =
     \<lparr>op = ''const'', dest = dest i,
      type = Some (case type i of None \<Rightarrow> PrimType ''int'' | Some t \<Rightarrow> t),
      args = None, val = Some (VNum v), labels = None, funcs = None\<rparr>"

text \<open>
  The test that guards the folding branch: the operation is \<^verbatim>\<open>add\<close>, \<^verbatim>\<open>sub\<close> or \<^verbatim>\<open>mul\<close>,
  \<^verbatim>\<open>instr.args\<close> is present (an array is truthy, also the empty one), \<^verbatim>\<open>instr.dest\<close> is truthy,
  and both \<^verbatim>\<open>vx\<close> and \<^verbatim>\<open>vy\<close> differ from \<^verbatim>\<open>undefined\<close>. The result is the destination and the
  folded number \<^verbatim>\<open>val\<close>, or \<open>None\<close> where the code falls through to \<^verbatim>\<open>out.push(instr)\<close>.
\<close>

definition tryFold ::
  "'n js_arith \<Rightarrow> (string \<rightharpoonup> 'n jsvalue) \<Rightarrow> 'n operation \<Rightarrow> (string \<times> 'n) option" where
  "tryFold A env i =
     (if op i = ''add'' \<or> op i = ''sub'' \<or> op i = ''mul'' then
        (case args i of
           None \<Rightarrow> None
         | Some as \<Rightarrow>
            (case dest i of
               None \<Rightarrow> None
             | Some d \<Rightarrow>
                (if d = [] then None
                 else
                   (case env_get env (arg_at as 0) of
                      None \<Rightarrow> None
                    | Some vx \<Rightarrow>
                       (case env_get env (arg_at as 1) of
                          None \<Rightarrow> None
                        | Some vy \<Rightarrow> Some (d, fold_value A (op i) vx vy))))))
      else None)"

text \<open>One iteration of the first loop; the state is \<^verbatim>\<open>env\<close> and \<^verbatim>\<open>out\<close>.\<close>

fun foldStep ::
  "'n js_arith \<Rightarrow> 'n instruction \<Rightarrow> (string \<rightharpoonup> 'n jsvalue) \<times> 'n instruction list
     \<Rightarrow> (string \<rightharpoonup> 'n jsvalue) \<times> 'n instruction list" where
  "foldStep A (Label l) (env, out) = (env, out)"
| "foldStep A (Op i) (env, out) =
     (case (op i = ''const'', dest i) of
        (True, Some d) \<Rightarrow> (env(d := val i), out @ [Op i])
      | _ \<Rightarrow>
        (case tryFold A env i of
           Some (d, v) \<Rightarrow> (env(d \<mapsto> VNum v), out @ [Op (folded_const i v)])
         | None \<Rightarrow> (env, out @ [Op i])))"

definition foldPass ::
  "'n js_arith \<Rightarrow> 'n instruction list \<Rightarrow> (string \<rightharpoonup> 'n jsvalue) \<times> 'n instruction list" where
  "foldPass A instrs = fold (foldStep A) instrs (Map.empty, [])"

text \<open>The second loop: every argument of every operation of \<^verbatim>\<open>out\<close> is added to \<^verbatim>\<open>used\<close>.\<close>

fun useStep :: "'n instruction \<Rightarrow> string set \<Rightarrow> string set" where
  "useStep (Label l) used = used"
| "useStep (Op i) used = (case args i of None \<Rightarrow> used | Some as \<Rightarrow> fold insert as used)"

definition collectUsed :: "'n instruction list \<Rightarrow> string set" where
  "collectUsed out = fold useStep out {}"

text \<open>The predicate of the final \<^verbatim>\<open>filter\<close>: \<open>True\<close> keeps the instruction.\<close>

fun keepInstr :: "string set \<Rightarrow> 'n instruction \<Rightarrow> bool" where
  "keepInstr used (Label l) = True"
| "keepInstr used (Op i) =
     (case dest i of
        None \<Rightarrow> True
      | Some d \<Rightarrow>
         (if d \<noteq> [] then
            (if d \<notin> used then
               (if op i = ''const'' \<or> op i = ''add'' \<or> op i = ''sub'' \<or> op i = ''mul''
                then False else True)
             else True)
          else True))"

definition optimizeTrace :: "'n js_arith \<Rightarrow> 'n instruction list \<Rightarrow> 'n instruction list" where
  "optimizeTrace A instrs =
     (let out = snd (foldPass A instrs);
          used = collectUsed out
      in filter (keepInstr used) out)"

section \<open>Guard Lowering: the main loop of \<^verbatim>\<open>main\<close>\<close>

datatype error =
    MissingInput          \<comment> \<open>the trace file holds no record: \<^verbatim>\<open>Deno.exit(2)\<close>\<close>
  | MalformedControl      \<comment> \<open>\<^verbatim>\<open>throw new Error("br in trace without condition arg")\<close>\<close>
  | MissingEntry          \<comment> \<open>no function named \<^verbatim>\<open>main\<close>: \<^verbatim>\<open>Deno.exit(1)\<close>\<close>
  | MissingBody           \<comment> \<open>\<^verbatim>\<open>[...fallbackBody]\<close> on a \<^verbatim>\<open>main\<close> without \<^verbatim>\<open>instrs\<close> throws\<close>
  | StructuralInvalid     \<comment> \<open>\<^verbatim>\<open>validateBrilProgram\<close> throws\<close>

text \<open>
  \<^verbatim>\<open>constMap\<close> is read with \<^verbatim>\<open>has\<close> and \<^verbatim>\<open>get\<close>: a key may be present with the value
  \<^verbatim>\<open>undefined\<close> (a \<^verbatim>\<open>const\<close> without \<^verbatim>\<open>value\<close>), so it maps a name to an optional value.
\<close>

fun constMapStep ::
  "'n instruction \<Rightarrow> (string \<rightharpoonup> 'n jsvalue option) \<Rightarrow> (string \<rightharpoonup> 'n jsvalue option)" where
  "constMapStep (Label l) cm = cm"
| "constMapStep (Op i) cm =
     (case (op i = ''const'', dest i) of
        (True, Some d) \<Rightarrow> (if d \<noteq> [] then cm(d \<mapsto> val i) else cm)
      | _ \<Rightarrow> cm)"

definition buildConstMap :: "'n instruction list \<Rightarrow> (string \<rightharpoonup> 'n jsvalue option)" where
  "buildConstMap optimized = fold constMapStep optimized Map.empty"

text \<open>
  The template literal \<^verbatim>\<open>${synthCounter++}\<close> renders the counter, a small natural number, in
  decimal.
\<close>

fun decimal :: "nat \<Rightarrow> string" where
  "decimal n =
     (if n < 10 then [''0123456789'' ! n]
      else decimal (n div 10) @ [''0123456789'' ! (n mod 10)])"

declare decimal.simps [simp del]

record 'n lower_state =
  guarded :: "'n instruction list"
  postCommitPrints :: "'n instruction list"
  synthCounter :: nat

definition mkOp :: "string \<Rightarrow> 'n operation" where
  "mkOp opc =
     \<lparr>op = opc, dest = None, type = None, args = None, val = None, labels = None,
      funcs = None\<rparr>"

definition boolConst :: "string \<Rightarrow> bool \<Rightarrow> 'n operation" where
  "boolConst nm b =
     \<lparr>op = ''const'', dest = Some nm, type = Some (PrimType ''bool''), args = None,
      val = Some (VBool b), labels = None, funcs = None\<rparr>"

definition guardOn :: "string \<Rightarrow> string \<Rightarrow> 'n operation" where
  "guardOn v bailLabel =
     \<lparr>op = ''guard'', dest = None, type = None, args = Some [v], val = None,
      labels = Some [bailLabel], funcs = None\<rparr>"

definition expConst :: "string \<Rightarrow> 'n jsvalue option \<Rightarrow> 'n operation" where
  "expConst constName v =
     \<lparr>op = ''const'', dest = Some constName,
      type = Some (PrimType (case v of Some (VBool b) \<Rightarrow> ''bool'' | _ \<Rightarrow> ''int'')),
      args = None, val = v, labels = None, funcs = None\<rparr>"

definition cmpInstr :: "string \<Rightarrow> string \<Rightarrow> string \<Rightarrow> 'n jsvalue option \<Rightarrow> 'n operation" where
  "cmpInstr cmpName a constName v =
     \<lparr>op = (case v of Some (VStr s) \<Rightarrow> ''ceq'' | _ \<Rightarrow> ''eq''), dest = Some cmpName,
      type = None, args = Some [a, constName], val = None, labels = None, funcs = None\<rparr>"

text \<open>
  The unconditional bail of the \<^verbatim>\<open>call\<close>/\<^verbatim>\<open>ret\<close> branch and of an unknown printed value:
  \<^verbatim>\<open>_spec_false_N\<close> is a \<^verbatim>\<open>false\<close> constant, followed by a guard on it.
\<close>

definition pushFalseGuard :: "string \<Rightarrow> 'n lower_state \<Rightarrow> 'n lower_state" where
  "pushFalseGuard bailLabel st =
     (let falseName = ''_spec_false_'' @ decimal (synthCounter st)
      in st\<lparr>guarded := guarded st @ [Op (boolConst falseName False), Op (guardOn falseName bailLabel)],
            synthCounter := synthCounter st + 1\<rparr>)"

text \<open>One iteration of \<^verbatim>\<open>for (const a of args)\<close>; the flag is \<^verbatim>\<open>willAlwaysBail\<close>.\<close>

fun printArgStep ::
  "(string \<rightharpoonup> 'n jsvalue option) \<Rightarrow> string \<Rightarrow> string \<Rightarrow> 'n lower_state \<times> bool
     \<Rightarrow> 'n lower_state \<times> bool" where
  "printArgStep constMap bailLabel a (st, willAlwaysBail) =
     (case constMap a of
        Some v \<Rightarrow>
          (let constName = ''_spec_exp_'' @ decimal (synthCounter st);
               cmpName = ''_spec_cmp_'' @ decimal (synthCounter st + 1)
           in (st\<lparr>guarded := guarded st @
                     [Op (expConst constName v), Op (cmpInstr cmpName a constName v),
                      Op (guardOn cmpName bailLabel)],
                   synthCounter := synthCounter st + 2\<rparr>,
               willAlwaysBail))
      | None \<Rightarrow> (pushFalseGuard bailLabel st, True))"

text \<open>\<^verbatim>\<open>const args = ins.args || []\<close>\<close>

fun printArgs :: "'n operation \<Rightarrow> string list" where
  "printArgs i = (case args i of None \<Rightarrow> [] | Some as \<Rightarrow> as)"

datatype 'n loop_result =
    Continue "'n lower_state"
  | Break "'n lower_state"
  | Throw error

fun lowerStep ::
  "(string \<rightharpoonup> 'n jsvalue option) \<Rightarrow> string \<Rightarrow> 'n lower_state \<Rightarrow> 'n instruction
     \<Rightarrow> 'n loop_result" where
  "lowerStep constMap bailLabel st (Label l) = Continue st"
| "lowerStep constMap bailLabel st (Op ins) =
     (if op ins = ''jmp'' then Continue st
      else if op ins = ''call'' \<or> op ins = ''ret'' then Break (pushFalseGuard bailLabel st)
      else if op ins = ''br'' then
        (case (case args ins of None \<Rightarrow> None | Some as \<Rightarrow> arg_at as 0) of
           None \<Rightarrow> Throw MalformedControl
         | Some condVar \<Rightarrow>
            (if condVar = [] then Throw MalformedControl
             else Continue (st\<lparr>guarded := guarded st @ [Op (guardOn condVar bailLabel)]\<rparr>)))
      else if op ins = ''print'' then
        (let (st', willAlwaysBail) =
               fold (printArgStep constMap bailLabel) (printArgs ins) (st, False)
         in Continue
              (if \<not> willAlwaysBail
               then st'\<lparr>postCommitPrints := postCommitPrints st' @ [Op ins]\<rparr>
               else st'))
      else Continue (st\<lparr>guarded := guarded st @ [Op ins]\<rparr>))"

fun lowerLoop ::
  "(string \<rightharpoonup> 'n jsvalue option) \<Rightarrow> string \<Rightarrow> 'n lower_state \<Rightarrow> 'n instruction list
     \<Rightarrow> error + 'n lower_state" where
  "lowerLoop constMap bailLabel st [] = Inr st"
| "lowerLoop constMap bailLabel st (ins # rest) =
     (case lowerStep constMap bailLabel st ins of
        Continue st' \<Rightarrow> lowerLoop constMap bailLabel st' rest
      | Break st' \<Rightarrow> Inr st'
      | Throw e \<Rightarrow> Inl e)"

definition initState :: "'n lower_state" where
  "initState = \<lparr>guarded = [], postCommitPrints = [], synthCounter = 0\<rparr>"

definition guardLowering ::
  "(string \<rightharpoonup> 'n jsvalue option) \<Rightarrow> string \<Rightarrow> 'n instruction list \<Rightarrow> error + 'n lower_state" where
  "guardLowering constMap bailLabel optimized = lowerLoop constMap bailLabel initState optimized"

section \<open>Speculative Assembler and the replacement of \<^verbatim>\<open>main\<close>\<close>

text \<open>
  A function of the program: \<^verbatim>\<open>name\<close>, the optional parameter list (the field \<^verbatim>\<open>args\<close> of the
  source, here \<open>params\<close>), the optional return type (\<^verbatim>\<open>type\<close>, here \<open>rettype\<close>) and the
  instruction list \<^verbatim>\<open>instrs\<close>, which \<^verbatim>\<open>validateBrilProgram\<close> tests and so may be absent.
  The field \<^verbatim>\<open>functions\<close> of a program is \<open>functions_of\<close> here.
\<close>

record argument =
  argname :: string
  argtype :: bril_type

record 'n func =
  name :: string
  params :: "argument list option"
  rettype :: "bril_type option"
  instrs :: "'n instruction list option"

record 'n program =
  functions_of :: "'n func list"

fun isGuard :: "'n instruction \<Rightarrow> bool" where
  "isGuard (Label l) = False"
| "isGuard (Op i) = (op i = ''guard'')"

definition hasGuard :: "'n instruction list \<Rightarrow> bool" where
  "hasGuard g = list_ex isGuard g"

text \<open>
  The test of the backward scan: the entry has a truthy \<^verbatim>\<open>dest\<close> and its \<^verbatim>\<open>type\<close> is the string
  \<^verbatim>\<open>"bool"\<close>. The scan returns the \<^verbatim>\<open>dest\<close> of the last such entry.
\<close>

fun boolDest :: "'n instruction \<Rightarrow> string option" where
  "boolDest (Label l) = None"
| "boolDest (Op i) =
     (case dest i of
        None \<Rightarrow> None
      | Some d \<Rightarrow> (if d \<noteq> [] \<and> type i = Some (PrimType ''bool'') then Some d else None))"

fun scanBool :: "'n instruction list \<Rightarrow> string option" where
  "scanBool [] = None"
| "scanBool (ins # before) =
     (case boolDest ins of Some d \<Rightarrow> Some d | None \<Rightarrow> scanBool before)"

definition gatingGuard :: "'n instruction list \<Rightarrow> string \<Rightarrow> 'n instruction list" where
  "gatingGuard g bailLabel =
     (if hasGuard g then []
      else
        (case scanBool (rev g) of
           Some boolVar \<Rightarrow> [Op (guardOn boolVar bailLabel)]
         | None \<Rightarrow>
            [Op (boolConst ''_spec_true_guard'' True),
             Op (guardOn ''_spec_true_guard'' bailLabel)]))"

fun isRet :: "'n instruction \<Rightarrow> bool" where
  "isRet (Label l) = False"
| "isRet (Op i) = (op i = ''ret'')"

definition fallbackInstrs :: "'n instruction list \<Rightarrow> 'n instruction list" where
  "fallbackInstrs fallbackBody =
     (if \<not> (fallbackBody \<noteq> [] \<and> isRet (last fallbackBody))
      then fallbackBody @ [Op (mkOp ''ret'')]
      else fallbackBody)"

definition newInstrs ::
  "'n instruction list \<Rightarrow> 'n instruction list \<Rightarrow> string \<Rightarrow> 'n instruction list
     \<Rightarrow> 'n instruction list" where
  "newInstrs g prints bailLabel fallbackBody =
     [Op (mkOp ''speculate'')] @ g @ gatingGuard g bailLabel @ [Op (mkOp ''commit'')] @
     prints @ [Op (mkOp ''ret''), Label bailLabel] @ fallbackInstrs fallbackBody"

fun findIndex :: "('a \<Rightarrow> bool) \<Rightarrow> 'a list \<Rightarrow> nat option" where
  "findIndex P [] = None"
| "findIndex P (x # xs) =
     (if P x then Some 0 else map_option Suc (findIndex P xs))"

text \<open>
  \<^verbatim>\<open>validateBrilProgram\<close>: in this model every function has a name and every instruction is a
  label or an operation, so the one test left is that each function has an instruction list.
\<close>

definition validateBrilProgram :: "('n, 'z) program_scheme \<Rightarrow> error + unit" where
  "validateBrilProgram prog =
     (if list_all (\<lambda>f. instrs f \<noteq> None) (functions_of prog) then Inr ()
      else Inl StructuralInvalid)"

text \<open>
  \<^verbatim>\<open>main\<close> from the parsed trace and program to the program that \<^verbatim>\<open>brilToText\<close> prints. The
  trace has one entry for each non-blank line of the trace file, so it is empty exactly when
  \<^verbatim>\<open>lines.length === 0\<close>, where \<^verbatim>\<open>main\<close> exits. Reading and parsing the two files and printing
  the result as text are left out.
\<close>

definition main ::
  "'n js_arith \<Rightarrow> 'n instruction list \<Rightarrow> 'n program \<Rightarrow> error + 'n program" where
  "main A rawTrace prog =
     (if rawTrace = [] then Inl MissingInput
      else
        (let bailLabel = ''.bail'';
             optimized = optimizeTrace A rawTrace;
             constMap = buildConstMap optimized
         in case guardLowering constMap bailLabel optimized of
              Inl e \<Rightarrow> Inl e
            | Inr st \<Rightarrow>
               (case findIndex (\<lambda>f. name f = ''main'') (functions_of prog) of
                  None \<Rightarrow> Inl MissingEntry
                | Some mainIdx \<Rightarrow>
                   (let origMain = functions_of prog ! mainIdx
                    in case instrs origMain of
                         None \<Rightarrow> Inl MissingBody
                       | Some fallbackBody \<Rightarrow>
                          (let newMain = origMain
                                 \<lparr>instrs := Some (newInstrs (guarded st) (postCommitPrints st)
                                                    bailLabel fallbackBody)\<rparr>;
                               prog' = prog\<lparr>functions_of := (functions_of prog)[mainIdx := newMain]\<rparr>
                           in case validateBrilProgram prog' of
                                Inl e \<Rightarrow> Inl e
                              | Inr u \<Rightarrow> Inr prog')))))"

section \<open>Examples, and notions used in the statements\<close>

definition constInt :: "string \<Rightarrow> int \<Rightarrow> int instruction" where
  "constInt d n =
     Op \<lparr>op = ''const'', dest = Some d, type = Some (PrimType ''int''), args = None,
         val = Some (VNum n), labels = None, funcs = None\<rparr>"

definition binop :: "string \<Rightarrow> string \<Rightarrow> string \<Rightarrow> string \<Rightarrow> int operation" where
  "binop opc d x y =
     \<lparr>op = opc, dest = Some d, type = Some (PrimType ''int''), args = Some [x, y],
      val = None, labels = None, funcs = None\<rparr>"

definition effect :: "string \<Rightarrow> string list \<Rightarrow> int operation" where
  "effect opc as =
     \<lparr>op = opc, dest = None, type = None, args = Some as, val = None, labels = None,
      funcs = None\<rparr>"

text \<open>The operations that the Reducer is said never to drop.\<close>

definition keptOps :: "string set" where
  "keptOps = {''print'', ''call'', ''ret'', ''guard'', ''speculate'', ''commit''}"

text \<open>
  The instructions at which Guard Lowering stops, and the prints all of whose arguments are
  keys of \<^verbatim>\<open>constMap\<close>.
\<close>

fun isCallRet :: "'n instruction \<Rightarrow> bool" where
  "isCallRet (Label l) = False"
| "isCallRet (Op i) = (op i = ''call'' \<or> op i = ''ret'')"

fun isKnownPrint :: "(string \<rightharpoonup> 'n jsvalue option) \<Rightarrow> 'n instruction \<Rightarrow> bool" where
  "isKnownPrint cm (Label l) = False"
| "isKnownPrint cm (Op i) = (op i = ''print'' \<and> (\<forall>a\<in>set (printArgs i). cm a \<noteq> None))"

text \<open>
  A \<^verbatim>\<open>br\<close> without a condition argument: \<^verbatim>\<open>ins.args?.[0]\<close> is \<^verbatim>\<open>undefined\<close> (no \<^verbatim>\<open>args\<close>, or an empty
  list) or the empty string, the two falsy values of its type.
\<close>

fun isMalformedBr :: "'n instruction \<Rightarrow> bool" where
  "isMalformedBr (Label l) = False"
| "isMalformedBr (Op i) =
     (op i = ''br'' \<and>
      (case args i of None \<Rightarrow> True | Some [] \<Rightarrow> True | Some (c # zs) \<Rightarrow> c = []))"

text \<open>Label entries: the objects without an \<^verbatim>\<open>op\<close> field.\<close>

fun isLabel :: "'n instruction \<Rightarrow> bool" where
  "isLabel (Label l) = True"
| "isLabel (Op i) = False"

text \<open>
  The scenario of the specification: the trace \<^verbatim>\<open>const a:int=3; const b:int=4; add c:int=a,b;
  print c\<close>, and a program whose \<^verbatim>\<open>main\<close> has these four instructions as its body, after a
  second function. \<open>scenario_body\<close> is the speculative part of the \<^verbatim>\<open>main\<close> that the code
  builds, up to the bail label; \<open>scenario_result\<close> is the whole program it builds.
\<close>

definition scenario_trace :: "int instruction list" where
  "scenario_trace =
     [constInt ''a'' 3, constInt ''b'' 4, Op (binop ''add'' ''c'' ''a'' ''b''),
      Op (effect ''print'' [''c''])]"

definition helperFunc :: "int func" where
  "helperFunc =
     \<lparr>name = ''helper'', params = Some [\<lparr>argname = ''x'', argtype = PrimType ''int''\<rparr>],
      rettype = Some (PrimType ''int''), instrs = Some [Op (effect ''ret'' [''x''])]\<rparr>"

definition mainFunc :: "int instruction list \<Rightarrow> int func" where
  "mainFunc body = \<lparr>name = ''main'', params = None, rettype = None, instrs = Some body\<rparr>"

definition scenario_prog :: "int program" where
  "scenario_prog = \<lparr>functions_of = [helperFunc, mainFunc scenario_trace]\<rparr>"

definition scenario_body :: "int instruction list" where
  "scenario_body =
     [Op (mkOp ''speculate''),
      constInt ''c'' 7,
      constInt ''_spec_exp_0'' 7,
      Op \<lparr>op = ''eq'', dest = Some ''_spec_cmp_1'', type = None,
          args = Some [''c'', ''_spec_exp_0''], val = None, labels = None, funcs = None\<rparr>,
      Op \<lparr>op = ''guard'', dest = None, type = None, args = Some [''_spec_cmp_1''],
          val = None, labels = Some [''.bail''], funcs = None\<rparr>,
      Op (mkOp ''commit''),
      Op (effect ''print'' [''c'']),
      Op (mkOp ''ret''),
      Label ''.bail'']"

definition scenario_result :: "int program" where
  "scenario_result =
     \<lparr>functions_of =
        [helperFunc,
         \<lparr>name = ''main'', params = None, rettype = None,
          instrs = Some (scenario_body @ scenario_trace @ [Op (mkOp ''ret'')])\<rparr>]\<rparr>"

text \<open>A trace with label entries between its operations.\<close>

definition labelled_trace :: "int instruction list" where
  "labelled_trace =
     [Label ''entry'', constInt ''c'' 7, Label ''next'', Op (effect ''print'' [''c''])]"

section \<open>The fold pass\<close>

lemma foldStep_out:
  "\<exists>e' new. foldStep A ins (e, out) = (e', out @ new)"
  by (cases ins) (auto split: option.splits bool.splits prod.splits)

lemma fold_foldStep_out:
  "\<exists>e' new. fold (foldStep A) xs (e, out) = (e', out @ new)"
proof (induction xs arbitrary: e out)
  case Nil
  show ?case by simp
next
  case (Cons x xs)
  obtain e1 n1 where s: "foldStep A x (e, out) = (e1, out @ n1)"
    using foldStep_out by blast
  obtain e2 n2 where "fold (foldStep A) xs (e1, out @ n1) = (e2, (out @ n1) @ n2)"
    using Cons.IH by blast
  with s show ?case by simp
qed

lemma foldPass_snoc:
  "foldPass A pre = s \<Longrightarrow>
   foldPass A (pre @ ins # post) = fold (foldStep A) post (foldStep A ins s)"
  by (simp add: foldPass_def)

text \<open>
  Claim C1. Let the fold pass have processed the instructions \<open>pre\<close>, with environment \<open>env\<close>
  and output \<open>out\<close>, and let the next instruction \<open>i\<close> be an \<^verbatim>\<open>add\<close>, \<^verbatim>\<open>sub\<close> or \<^verbatim>\<open>mul\<close> with
  arguments \<open>x\<close>, \<open>y\<close>. If \<open>i\<close> has a (non-empty) destination \<open>d\<close> and the environment knows
  both \<open>x\<close> and \<open>y\<close>, the pass appends, in place of \<open>i\<close>, a \<^verbatim>\<open>const\<close> of destination \<open>d\<close> whose
  value is the operator applied to \<^verbatim>\<open>Number\<close> of the two operand values, and binds \<open>d\<close> to that
  number in the environment. If the environment lacks \<open>x\<close> or \<open>y\<close>, the pass appends \<open>i\<close>
  itself and leaves the environment as it is. In both cases the appended instruction stays at
  its place in the output of the whole pass, whatever follows in the trace.
\<close>

theorem fold_pass_add_sub_mul:
  assumes opc: "op i = ''add'' \<or> op i = ''sub'' \<or> op i = ''mul''"
    and pre: "foldPass A pre = (env, out)"
    and ar: "args i = Some (x # y # zs)"
  shows
    "(dest i = Some d \<and> d \<noteq> [] \<and> env x = Some vx \<and> env y = Some vy \<longrightarrow>
        (let v = (if op i = ''add'' then num_add A (Number A vx) (Number A vy)
                  else if op i = ''sub'' then num_sub A (Number A vx) (Number A vy)
                  else num_mul A (Number A vx) (Number A vy));
             c = Op \<lparr>op = ''const'', dest = Some d,
                      type = Some (case type i of None \<Rightarrow> PrimType ''int'' | Some t \<Rightarrow> t),
                      args = None, val = Some (VNum v), labels = None, funcs = None\<rparr>
         in foldPass A (pre @ [Op i]) = (env(d \<mapsto> VNum v), out @ [c]) \<and>
            (\<exists>rest. snd (foldPass A (pre @ Op i # post)) = out @ c # rest))) \<and>
     (env x = None \<or> env y = None \<longrightarrow>
        foldPass A (pre @ [Op i]) = (env, out @ [Op i]) \<and>
        (\<exists>rest. snd (foldPass A (pre @ Op i # post)) = out @ Op i # rest))"
proof (rule conjI [OF impI impI])
  assume h: "dest i = Some d \<and> d \<noteq> [] \<and> env x = Some vx \<and> env y = Some vy"
  let ?v = "fold_value A (op i) vx vy"
  have nc: "op i \<noteq> ''const''" using opc by auto
  have tf: "tryFold A env i = Some (d, ?v)"
    using opc ar h by (simp add: tryFold_def)
  have st: "foldStep A (Op i) (env, out) = (env(d \<mapsto> VNum ?v), out @ [Op (folded_const i ?v)])"
    using nc tf by simp
  obtain e' new where
    r: "fold (foldStep A) post (env(d \<mapsto> VNum ?v), out @ [Op (folded_const i ?v)])
          = (e', (out @ [Op (folded_const i ?v)]) @ new)"
    using fold_foldStep_out by blast
  have one: "foldPass A (pre @ [Op i]) = (env(d \<mapsto> VNum ?v), out @ [Op (folded_const i ?v)])"
    using foldPass_snoc [OF pre, of "Op i" "[]"] st by simp
  have all: "snd (foldPass A (pre @ Op i # post)) = out @ Op (folded_const i ?v) # new"
    using foldPass_snoc [OF pre, of "Op i" post] st r by simp
  show "let v = (if op i = ''add'' then num_add A (Number A vx) (Number A vy)
                  else if op i = ''sub'' then num_sub A (Number A vx) (Number A vy)
                  else num_mul A (Number A vx) (Number A vy));
             c = Op \<lparr>op = ''const'', dest = Some d,
                      type = Some (case type i of None \<Rightarrow> PrimType ''int'' | Some t \<Rightarrow> t),
                      args = None, val = Some (VNum v), labels = None, funcs = None\<rparr>
         in foldPass A (pre @ [Op i]) = (env(d \<mapsto> VNum v), out @ [c]) \<and>
            (\<exists>rest. snd (foldPass A (pre @ Op i # post)) = out @ c # rest)"
    using one all h by (auto simp: Let_def fold_value_def folded_const_def)
next
  assume h: "env x = None \<or> env y = None"
  have nc: "op i \<noteq> ''const''" using opc by auto
  have tf: "tryFold A env i = None"
    using h ar by (auto simp: tryFold_def split: option.splits)
  have st: "foldStep A (Op i) (env, out) = (env, out @ [Op i])"
    using nc tf by simp
  obtain e' new where
    r: "fold (foldStep A) post (env, out @ [Op i]) = (e', (out @ [Op i]) @ new)"
    using fold_foldStep_out by blast
  have one: "foldPass A (pre @ [Op i]) = (env, out @ [Op i])"
    using foldPass_snoc [OF pre, of "Op i" "[]"] st by simp
  have all: "snd (foldPass A (pre @ Op i # post)) = out @ Op i # new"
    using foldPass_snoc [OF pre, of "Op i" post] st r by simp
  show "foldPass A (pre @ [Op i]) = (env, out @ [Op i]) \<and>
        (\<exists>rest. snd (foldPass A (pre @ Op i # post)) = out @ Op i # rest)"
    using one all by blast
qed

theorem fold_pass_add_sub_mul_witness:
  "foldPass small_int_arith [constInt ''a'' 3, constInt ''b'' 4, Op (binop ''mul'' ''c'' ''a'' ''b'')]
     = ([''a'' \<mapsto> VNum 3, ''b'' \<mapsto> VNum 4, ''c'' \<mapsto> VNum 12],
        [constInt ''a'' 3, constInt ''b'' 4, constInt ''c'' 12]) \<and>
   foldPass small_int_arith [constInt ''a'' 3, constInt ''b'' 4, Op (binop ''mul'' ''c'' ''a'' ''z'')]
     = ([''a'' \<mapsto> VNum 3, ''b'' \<mapsto> VNum 4],
        [constInt ''a'' 3, constInt ''b'' 4, Op (binop ''mul'' ''c'' ''a'' ''z'')])"
proof -
  let ?pre = "[constInt ''a'' 3, constInt ''b'' 4]"
  let ?env = "[''a'' \<mapsto> VNum (3::int), ''b'' \<mapsto> VNum 4]"
  have pre: "foldPass small_int_arith ?pre = (?env, ?pre)"
    by (simp add: foldPass_def constInt_def)
  have a: "op (binop ''mul'' ''c'' ''a'' ''b'') = ''add'' \<or>
           op (binop ''mul'' ''c'' ''a'' ''b'') = ''sub'' \<or>
           op (binop ''mul'' ''c'' ''a'' ''b'') = ''mul''"
    by (simp add: binop_def)
  have b: "args (binop ''mul'' ''c'' ''a'' ''b'') = Some (''a'' # ''b'' # [])"
    by (simp add: binop_def)
  have a': "op (binop ''mul'' ''c'' ''a'' ''z'') = ''add'' \<or>
            op (binop ''mul'' ''c'' ''a'' ''z'') = ''sub'' \<or>
            op (binop ''mul'' ''c'' ''a'' ''z'') = ''mul''"
    by (simp add: binop_def)
  have b': "args (binop ''mul'' ''c'' ''a'' ''z'') = Some (''a'' # ''z'' # [])"
    by (simp add: binop_def)
  show ?thesis
    using fold_pass_add_sub_mul [OF a pre b, of "''c''" "VNum 3" "VNum 4" "[]"]
          fold_pass_add_sub_mul [OF a' pre b', of "''c''" "VNum 3" "VNum 4" "[]"]
    by (simp add: binop_def constInt_def small_int_arith_def Let_def)
qed

section \<open>The dead-assignment filter\<close>

lemma fold_insert_set: "fold insert as U = set as \<union> U"
  by (induction as arbitrary: U) auto

lemma fold_useStep:
  "fold useStep xs U = U \<union> {a. \<exists>j as. Op j \<in> set xs \<and> args j = Some as \<and> a \<in> set as}"
proof (induction xs arbitrary: U)
  case Nil
  show ?case by simp
next
  case (Cons x xs)
  show ?case
  proof (cases x)
    case (Label l)
    then show ?thesis using Cons.IH [of U] by auto
  next
    case (Op i)
    then show ?thesis
      using Cons.IH [of "useStep x U"]
      by (cases "args i") (auto simp: fold_insert_set)
  qed
qed

lemma collectUsed_eq:
  "collectUsed out = {a. \<exists>j as. Op j \<in> set out \<and> args j = Some as \<and> a \<in> set as}"
  by (simp add: collectUsed_def fold_useStep)

lemma keepInstr_iff:
  "keepInstr used ins \<longleftrightarrow>
     \<not> (\<exists>i d. ins = Op i \<and> dest i = Some d \<and> d \<noteq> [] \<and> d \<notin> used \<and>
              (op i = ''const'' \<or> op i = ''add'' \<or> op i = ''sub'' \<or> op i = ''mul''))"
  by (cases ins) (auto split: option.splits)

lemma foldStep_kept:
  "filter (\<lambda>ins. \<exists>i. ins = Op i \<and> op i \<in> keptOps) (snd (foldStep A x (e, out)))
     = filter (\<lambda>ins. \<exists>i. ins = Op i \<and> op i \<in> keptOps) (out @ [x])"
proof (cases x)
  case (Label l)
  then show ?thesis by simp
next
  case (Op i)
  have "tryFold A e i \<noteq> None \<Longrightarrow> op i \<notin> keptOps"
    by (auto simp: tryFold_def keptOps_def split: if_splits)
  then show ?thesis using Op
    by (auto simp: folded_const_def keptOps_def split: option.splits bool.splits)
qed

lemma fold_foldStep_kept:
  "filter (\<lambda>ins. \<exists>i. ins = Op i \<and> op i \<in> keptOps) (snd (fold (foldStep A) xs (e, out)))
     = filter (\<lambda>ins. \<exists>i. ins = Op i \<and> op i \<in> keptOps) (out @ xs)"
proof (induction xs arbitrary: e out)
  case Nil
  show ?case by simp
next
  case (Cons x xs)
  obtain e1 o1 where s: "foldStep A x (e, out) = (e1, o1)" by (cases "foldStep A x (e, out)")
  have "filter (\<lambda>ins. \<exists>i. ins = Op i \<and> op i \<in> keptOps) o1
          = filter (\<lambda>ins. \<exists>i. ins = Op i \<and> op i \<in> keptOps) (out @ [x])"
    using foldStep_kept [of A x e out] s by simp
  then show ?case using Cons.IH [of e1 o1] s by simp
qed

text \<open>
  Claim C2. The reduced trace is the folded output without the instructions that have a
  (non-empty) destination which is an argument of no instruction of the folded output and
  whose operation is \<^verbatim>\<open>const\<close>, \<^verbatim>\<open>add\<close>, \<^verbatim>\<open>sub\<close> or \<^verbatim>\<open>mul\<close>: exactly those are removed.
  Hence the \<^verbatim>\<open>print\<close>, \<^verbatim>\<open>call\<close>, \<^verbatim>\<open>ret\<close>, \<^verbatim>\<open>guard\<close>, \<^verbatim>\<open>speculate\<close> and \<^verbatim>\<open>commit\<close> instructions of
  the reduced trace are those of the input trace, each of them, in the same order.
\<close>

theorem dead_assignment_filter:
  "optimizeTrace A t =
     filter (\<lambda>ins. \<not> (\<exists>i d. ins = Op i \<and> dest i = Some d \<and> d \<noteq> [] \<and>
                          (\<forall>j as. Op j \<in> set (snd (foldPass A t)) \<and> args j = Some as
                                     \<longrightarrow> d \<notin> set as) \<and>
                          (op i = ''const'' \<or> op i = ''add'' \<or> op i = ''sub'' \<or> op i = ''mul'')))
       (snd (foldPass A t)) \<and>
   filter (\<lambda>ins. \<exists>i. ins = Op i \<and> op i \<in> keptOps) (optimizeTrace A t)
     = filter (\<lambda>ins. \<exists>i. ins = Op i \<and> op i \<in> keptOps) t"
proof
  let ?out = "snd (foldPass A t)"
  have k: "keepInstr (collectUsed ?out) =
        (\<lambda>ins. \<not> (\<exists>i d. ins = Op i \<and> dest i = Some d \<and> d \<noteq> [] \<and>
                          (\<forall>j as. Op j \<in> set ?out \<and> args j = Some as \<longrightarrow> d \<notin> set as) \<and>
                          (op i = ''const'' \<or> op i = ''add'' \<or> op i = ''sub'' \<or> op i = ''mul'')))"
    unfolding keepInstr_iff collectUsed_eq by auto
  show "optimizeTrace A t =
     filter (\<lambda>ins. \<not> (\<exists>i d. ins = Op i \<and> dest i = Some d \<and> d \<noteq> [] \<and>
                          (\<forall>j as. Op j \<in> set ?out \<and> args j = Some as \<longrightarrow> d \<notin> set as) \<and>
                          (op i = ''const'' \<or> op i = ''add'' \<or> op i = ''sub'' \<or> op i = ''mul'')))
       ?out"
    unfolding optimizeTrace_def Let_def k ..
  have keep: "\<And>ins used. (\<exists>i. ins = Op i \<and> op i \<in> keptOps) \<Longrightarrow> keepInstr used ins"
    by (auto simp: keptOps_def split: option.splits)
  have "filter (\<lambda>ins. \<exists>i. ins = Op i \<and> op i \<in> keptOps) (optimizeTrace A t)
      = filter (\<lambda>ins. \<exists>i. ins = Op i \<and> op i \<in> keptOps) ?out"
    unfolding optimizeTrace_def Let_def filter_filter
    by (rule filter_cong [OF refl]) (use keep in blast)
  also have "\<dots> = filter (\<lambda>ins. \<exists>i. ins = Op i \<and> op i \<in> keptOps) t"
    using fold_foldStep_kept [of A t Map.empty "[]"] by (simp add: foldPass_def)
  finally show "filter (\<lambda>ins. \<exists>i. ins = Op i \<and> op i \<in> keptOps) (optimizeTrace A t)
     = filter (\<lambda>ins. \<exists>i. ins = Op i \<and> op i \<in> keptOps) t" .
qed


theorem dead_assignment_filter_witness:
  "optimizeTrace small_int_arith
     [constInt ''a'' 3, constInt ''b'' 4, Op (binop ''add'' ''c'' ''a'' ''b''),
      Op (effect ''print'' [''c''])]
     = [constInt ''c'' 7, Op (effect ''print'' [''c''])] \<and>
   filter (\<lambda>ins. \<exists>i. ins = Op i \<and> op i \<in> keptOps)
     (optimizeTrace small_int_arith
        [constInt ''a'' 3, constInt ''b'' 4, Op (binop ''add'' ''c'' ''a'' ''b''),
         Op (effect ''print'' [''c''])])
     = [Op (effect ''print'' [''c''])]"
proof -
  let ?t = "[constInt ''a'' 3, constInt ''b'' 4, Op (binop ''add'' ''c'' ''a'' ''b''),
             Op (effect ''print'' [''c''])]"
  have e: "optimizeTrace small_int_arith ?t = [constInt ''c'' 7, Op (effect ''print'' [''c''])]"
    by (simp add: optimizeTrace_def foldPass_def collectUsed_def constInt_def binop_def
        effect_def tryFold_def fold_value_def folded_const_def small_int_arith_def)
  have "filter (\<lambda>ins. \<exists>i. ins = Op i \<and> op i \<in> keptOps) (optimizeTrace small_int_arith ?t)
      = filter (\<lambda>ins. \<exists>i. ins = Op i \<and> op i \<in> keptOps) ?t"
    using dead_assignment_filter [of small_int_arith ?t] by (rule conjunct2)
  also have "\<dots> = [Op (effect ''print'' [''c''])]"
    by (simp add: constInt_def binop_def effect_def keptOps_def)
  finally show ?thesis using e by simp
qed

section \<open>Guard Lowering of prints\<close>

lemma printArgStep_frame:
  "printArgStep cm bail a (st, w) = (st', w') \<Longrightarrow>
     w' = (w \<or> cm a = None) \<and> postCommitPrints st' = postCommitPrints st \<and>
     (\<exists>new. guarded st' = guarded st @ new)"
  by (auto simp: pushFalseGuard_def Let_def split: option.splits)

lemma fold_printArgStep_frame:
  "fold (printArgStep cm bail) as (st, w) = (st', w') \<Longrightarrow>
     w' = (w \<or> (\<exists>a\<in>set as. cm a = None)) \<and> postCommitPrints st' = postCommitPrints st \<and>
     (\<exists>new. guarded st' = guarded st @ new)"
proof (induction as arbitrary: st w)
  case Nil
  then show ?case by simp
next
  case (Cons a as)
  obtain s1 w1 where s: "printArgStep cm bail a (st, w) = (s1, w1)"
    by (cases "printArgStep cm bail a (st, w)")
  have r: "fold (printArgStep cm bail) as (s1, w1) = (st', w')"
    using Cons.prems s by simp
  from printArgStep_frame [OF s] Cons.IH [OF r] show ?case by auto
qed

lemma fold_printArgStep_known:
  "\<forall>a\<in>set as. cm a \<noteq> None \<Longrightarrow>
   fold (printArgStep cm bail) as (st, w) =
     (st\<lparr>guarded := guarded st @
            concat (map (\<lambda>(k, a).
               [Op (expConst (''_spec_exp_'' @ decimal (synthCounter st + 2 * k)) (the (cm a))),
                Op (cmpInstr (''_spec_cmp_'' @ decimal (synthCounter st + 2 * k + 1)) a
                      (''_spec_exp_'' @ decimal (synthCounter st + 2 * k)) (the (cm a))),
                Op (guardOn (''_spec_cmp_'' @ decimal (synthCounter st + 2 * k + 1)) bail)])
              (enumerate 0 as)),
          synthCounter := synthCounter st + 2 * length as\<rparr>, w)"
proof (induction as arbitrary: st)
  case Nil
  then show ?case by simp
next
  case (Cons a as)
  then obtain v where v: "cm a = Some v" by auto
  have rest: "\<forall>a\<in>set as. cm a \<noteq> None" using Cons.prems by simp
  show ?case
    using v Cons.IH [OF rest]
    by (simp add: Let_def enumerate_Suc_eq comp_def split_def)
qed

lemma fold_printArgStep_unknown:
  "a \<in> set as \<Longrightarrow> cm a = None \<Longrightarrow>
   fold (printArgStep cm bail) as (st, w) = (st', w') \<Longrightarrow>
   \<exists>before after k.
     guarded st' = guarded st @ before @
       [Op (boolConst (''_spec_false_'' @ decimal k) False),
        Op (guardOn (''_spec_false_'' @ decimal k) bail)] @ after"
proof (induction as arbitrary: st w)
  case Nil
  then show ?case by simp
next
  case (Cons b bs)
  obtain s1 w1 where s: "printArgStep cm bail b (st, w) = (s1, w1)"
    by (cases "printArgStep cm bail b (st, w)")
  have r: "fold (printArgStep cm bail) bs (s1, w1) = (st', w')"
    using Cons.prems s by simp
  show ?case
  proof (cases "b = a")
    case True
    then have g1: "guarded s1 = guarded st @
       [Op (boolConst (''_spec_false_'' @ decimal (synthCounter st)) False),
        Op (guardOn (''_spec_false_'' @ decimal (synthCounter st)) bail)]"
      using s Cons.prems(2) by (auto simp: pushFalseGuard_def Let_def)
    obtain new where "guarded st' = guarded s1 @ new"
      using fold_printArgStep_frame [OF r] by blast
    with g1 have "guarded st' = guarded st @ [] @
       [Op (boolConst (''_spec_false_'' @ decimal (synthCounter st)) False),
        Op (guardOn (''_spec_false_'' @ decimal (synthCounter st)) bail)] @ new"
      by simp
    then show ?thesis by blast
  next
    case False
    then have "a \<in> set bs" using Cons.prems(1) by simp
    from Cons.IH [OF this Cons.prems(2) r] obtain before after k where
      g: "guarded st' = guarded s1 @ before @
       [Op (boolConst (''_spec_false_'' @ decimal k) False),
        Op (guardOn (''_spec_false_'' @ decimal k) bail)] @ after"
      by blast
    obtain n1 where "guarded s1 = guarded st @ n1"
      using printArgStep_frame [OF s] by blast
    with g have "guarded st' = guarded st @ (n1 @ before) @
       [Op (boolConst (''_spec_false_'' @ decimal k) False),
        Op (guardOn (''_spec_false_'' @ decimal k) bail)] @ after"
      by simp
    then show ?thesis by blast
  qed
qed


lemma lowerStep_print:
  assumes "op ins = ''print''"
  shows "lowerStep cm bail st (Op ins) =
     (let (st', w) = fold (printArgStep cm bail) (printArgs ins) (st, False)
      in Continue (if \<not> w then st'\<lparr>postCommitPrints := postCommitPrints st' @ [Op ins]\<rparr>
                   else st'))"
  using assms by simp

lemma lowerStep_Continue_prints:
  assumes "lowerStep cm bail st ins = Continue st'"
  shows "\<not> isCallRet ins \<and>
         postCommitPrints st' = postCommitPrints st @ (if isKnownPrint cm ins then [ins] else [])"
proof (cases ins)
  case (Label l)
  then show ?thesis using assms by simp
next
  case (Op i)
  show ?thesis
  proof (cases "op i = ''print''")
    case True
    obtain s1 w1 where f: "fold (printArgStep cm bail) (printArgs i) (st, False) = (s1, w1)"
      by (cases "fold (printArgStep cm bail) (printArgs i) (st, False)")
    from fold_printArgStep_frame [OF f]
    have w: "w1 = (\<exists>a\<in>set (printArgs i). cm a = None)"
      and p: "postCommitPrints s1 = postCommitPrints st" by auto
    have "st' = (if \<not> w1 then s1\<lparr>postCommitPrints := postCommitPrints s1 @ [Op i]\<rparr> else s1)"
      using assms Op True f lowerStep_print [OF True, of cm bail st] by simp
    then show ?thesis using Op True w p by auto
  next
    case False
    then show ?thesis using assms Op
      by (auto split: if_splits option.splits)
  qed
qed

lemma lowerStep_Break:
  assumes "lowerStep cm bail st ins = Break st'"
  shows "isCallRet ins \<and> st' = pushFalseGuard bail st"
proof (cases ins)
  case (Label l)
  then show ?thesis using assms by simp
next
  case (Op i)
  then show ?thesis using assms
    by (auto simp: Let_def split: if_splits option.splits prod.splits)
qed

lemma lowerStep_Throw:
  assumes "lowerStep cm bail st ins = Throw e"
  shows "\<not> isCallRet ins"
proof (cases ins)
  case (Label l)
  then show ?thesis using assms by simp
next
  case (Op i)
  then show ?thesis using assms
    by (auto simp: Let_def split: if_splits option.splits prod.splits)
qed

lemma lowerLoop_prints:
  "lowerLoop cm bail st t = Inr st' \<Longrightarrow>
   postCommitPrints st' =
     postCommitPrints st @ filter (isKnownPrint cm) (takeWhile (\<lambda>ins. \<not> isCallRet ins) t)"
proof (induction t arbitrary: st)
  case Nil
  then show ?case by simp
next
  case (Cons x xs)
  show ?case
  proof (cases "lowerStep cm bail st x")
    case (Continue s1)
    then have r: "lowerLoop cm bail s1 xs = Inr st'" using Cons.prems by simp
    from lowerStep_Continue_prints [OF Continue] Cons.IH [OF r]
    show ?thesis by auto
  next
    case (Break s1)
    then have "st' = s1" using Cons.prems by simp
    with lowerStep_Break [OF Break] show ?thesis
      by (simp add: pushFalseGuard_def Let_def)
  next
    case (Throw e)
    then show ?thesis using Cons.prems by simp
  qed
qed


text \<open>
  Claim C3. Guard Lowering at a \<^verbatim>\<open>print\<close>, in any state \<open>st\<close>. If some printed argument is not a
  key of \<^verbatim>\<open>constMap\<close>, the step appends, among the instructions for the arguments, a \<^verbatim>\<open>const\<close>
  \<^verbatim>\<open>false\<close> of type \<^verbatim>\<open>bool\<close> named \<^verbatim>\<open>_spec_false_k\<close> directly followed by a guard on it to the
  bail label, and the queue of deferred prints is unchanged. If every printed argument is a
  key, the step appends for the \<open>k\<close>-th argument \<open>a\<close> a \<^verbatim>\<open>const\<close> holding the recorded value, a
  comparison of \<open>a\<close> with that constant (\<^verbatim>\<open>ceq\<close> for a string, \<^verbatim>\<open>eq\<close> otherwise) and a guard on
  the result of the comparison, and appends the print to the queue. Over a whole lowering
  that returns, the queue is the list of the prints with all arguments known, in trace order,
  among the instructions before the first \<^verbatim>\<open>call\<close> or \<^verbatim>\<open>ret\<close>.
\<close>

theorem print_lowering:
  assumes pr: "op ins = ''print''"
  shows
    "((\<exists>a\<in>set (printArgs ins). constMap a = None) \<longrightarrow>
        (\<exists>st' before after k.
           lowerStep constMap bailLabel st (Op ins) = Continue st' \<and>
           guarded st' = guarded st @ before @
             [Op \<lparr>op = ''const'', dest = Some (''_spec_false_'' @ decimal k),
                  type = Some (PrimType ''bool''), args = None, val = Some (VBool False),
                  labels = None, funcs = None\<rparr>,
              Op \<lparr>op = ''guard'', dest = None, type = None,
                  args = Some [''_spec_false_'' @ decimal k], val = None,
                  labels = Some [bailLabel], funcs = None\<rparr>] @ after \<and>
           postCommitPrints st' = postCommitPrints st)) \<and>
     ((\<forall>a\<in>set (printArgs ins). constMap a \<noteq> None) \<longrightarrow>
        (\<exists>st'.
           lowerStep constMap bailLabel st (Op ins) = Continue st' \<and>
           guarded st' = guarded st @
             concat (map (\<lambda>(k, a).
                [Op \<lparr>op = ''const'',
                     dest = Some (''_spec_exp_'' @ decimal (synthCounter st + 2 * k)),
                     type = Some (PrimType (case the (constMap a) of
                                              Some (VBool b) \<Rightarrow> ''bool'' | _ \<Rightarrow> ''int'')),
                     args = None, val = the (constMap a), labels = None, funcs = None\<rparr>,
                 Op \<lparr>op = (case the (constMap a) of Some (VStr s) \<Rightarrow> ''ceq'' | _ \<Rightarrow> ''eq''),
                     dest = Some (''_spec_cmp_'' @ decimal (synthCounter st + 2 * k + 1)),
                     type = None,
                     args = Some [a, ''_spec_exp_'' @ decimal (synthCounter st + 2 * k)],
                     val = None, labels = None, funcs = None\<rparr>,
                 Op \<lparr>op = ''guard'', dest = None, type = None,
                     args = Some [''_spec_cmp_'' @ decimal (synthCounter st + 2 * k + 1)],
                     val = None, labels = Some [bailLabel], funcs = None\<rparr>])
               (enumerate 0 (printArgs ins))) \<and>
           postCommitPrints st' = postCommitPrints st @ [Op ins])) \<and>
     (\<forall>t st'. guardLowering constMap bailLabel t = Inr st' \<longrightarrow>
        postCommitPrints st' =
          filter (isKnownPrint constMap) (takeWhile (\<lambda>i. \<not> isCallRet i) t))"
proof (intro conjI impI allI)
  obtain s1 w1 where
    f: "fold (printArgStep constMap bailLabel) (printArgs ins) (st, False) = (s1, w1)"
    by (cases "fold (printArgStep constMap bailLabel) (printArgs ins) (st, False)")
  assume "\<exists>a\<in>set (printArgs ins). constMap a = None"
  then obtain a where a: "a \<in> set (printArgs ins)" "constMap a = None" by blast
  from fold_printArgStep_frame [OF f] a
  have w: "w1" and p: "postCommitPrints s1 = postCommitPrints st" by auto
  have step: "lowerStep constMap bailLabel st (Op ins) = Continue s1"
    using lowerStep_print [OF pr, of constMap bailLabel st] f w by simp
  from fold_printArgStep_unknown [OF a f] obtain before after k where
    "guarded s1 = guarded st @ before @
       [Op (boolConst (''_spec_false_'' @ decimal k) False),
        Op (guardOn (''_spec_false_'' @ decimal k) bailLabel)] @ after"
    by blast
  with step p show "\<exists>st' before after k.
           lowerStep constMap bailLabel st (Op ins) = Continue st' \<and>
           guarded st' = guarded st @ before @
             [Op \<lparr>op = ''const'', dest = Some (''_spec_false_'' @ decimal k),
                  type = Some (PrimType ''bool''), args = None, val = Some (VBool False),
                  labels = None, funcs = None\<rparr>,
              Op \<lparr>op = ''guard'', dest = None, type = None,
                  args = Some [''_spec_false_'' @ decimal k], val = None,
                  labels = Some [bailLabel], funcs = None\<rparr>] @ after \<and>
           postCommitPrints st' = postCommitPrints st"
    unfolding boolConst_def guardOn_def by blast
next
  assume k: "\<forall>a\<in>set (printArgs ins). constMap a \<noteq> None"
  show "\<exists>st'.
           lowerStep constMap bailLabel st (Op ins) = Continue st' \<and>
           guarded st' = guarded st @
             concat (map (\<lambda>(k, a).
                [Op \<lparr>op = ''const'',
                     dest = Some (''_spec_exp_'' @ decimal (synthCounter st + 2 * k)),
                     type = Some (PrimType (case the (constMap a) of
                                              Some (VBool b) \<Rightarrow> ''bool'' | _ \<Rightarrow> ''int'')),
                     args = None, val = the (constMap a), labels = None, funcs = None\<rparr>,
                 Op \<lparr>op = (case the (constMap a) of Some (VStr s) \<Rightarrow> ''ceq'' | _ \<Rightarrow> ''eq''),
                     dest = Some (''_spec_cmp_'' @ decimal (synthCounter st + 2 * k + 1)),
                     type = None,
                     args = Some [a, ''_spec_exp_'' @ decimal (synthCounter st + 2 * k)],
                     val = None, labels = None, funcs = None\<rparr>,
                 Op \<lparr>op = ''guard'', dest = None, type = None,
                     args = Some [''_spec_cmp_'' @ decimal (synthCounter st + 2 * k + 1)],
                     val = None, labels = Some [bailLabel], funcs = None\<rparr>])
               (enumerate 0 (printArgs ins))) \<and>
           postCommitPrints st' = postCommitPrints st @ [Op ins]"
    using lowerStep_print [OF pr, of constMap bailLabel st]
      fold_printArgStep_known [OF k, of bailLabel st False]
    by (simp add: expConst_def cmpInstr_def guardOn_def)
next
  fix t st'
  assume "guardLowering constMap bailLabel t = Inr st'"
  then show "postCommitPrints st' =
          filter (isKnownPrint constMap) (takeWhile (\<lambda>i. \<not> isCallRet i) t)"
    using lowerLoop_prints [of constMap bailLabel initState t st']
    by (simp add: guardLowering_def initState_def)
qed


theorem print_lowering_witness:
  "(\<exists>st'. lowerStep [''c'' \<mapsto> Some (VNum 7)] ''.bail'' initState (Op (effect ''print'' [''c'']))
            = Continue st' \<and>
          guarded st' =
            [constInt ''_spec_exp_0'' 7,
             Op \<lparr>op = ''eq'', dest = Some ''_spec_cmp_1'', type = None,
                 args = Some [''c'', ''_spec_exp_0''], val = None, labels = None,
                 funcs = None\<rparr>,
             Op \<lparr>op = ''guard'', dest = None, type = None, args = Some [''_spec_cmp_1''],
                 val = None, labels = Some [''.bail''], funcs = None\<rparr>] \<and>
          postCommitPrints st' = [Op (effect ''print'' [''c''])]) \<and>
   lowerStep [''c'' \<mapsto> Some (VNum (7::int))] ''.bail'' initState (Op (effect ''print'' [''z'']))
     = Continue
         \<lparr>guarded =
            [Op \<lparr>op = ''const'', dest = Some ''_spec_false_0'', type = Some (PrimType ''bool''),
                 args = None, val = Some (VBool False), labels = None, funcs = None\<rparr>,
             Op \<lparr>op = ''guard'', dest = None, type = None, args = Some [''_spec_false_0''],
                 val = None, labels = Some [''.bail''], funcs = None\<rparr>],
          postCommitPrints = [], synthCounter = 1\<rparr>"
proof -
  let ?cm = "[''c'' \<mapsto> Some (VNum (7::int))]"
  have h: "op (effect ''print'' [''c'']) = ''print''" by (simp add: effect_def)
  have k: "\<forall>a\<in>set (printArgs (effect ''print'' [''c''])). ?cm a \<noteq> None"
    by (simp add: effect_def)
  note known = mp [OF print_lowering [OF h, of ?cm "''.bail''" initState,
                         THEN conjunct2, THEN conjunct1] k]
  from known have one: "\<exists>st'. lowerStep ?cm ''.bail'' initState (Op (effect ''print'' [''c'']))
            = Continue st' \<and>
          guarded st' =
            [constInt ''_spec_exp_0'' 7,
             Op \<lparr>op = ''eq'', dest = Some ''_spec_cmp_1'', type = None,
                 args = Some [''c'', ''_spec_exp_0''], val = None, labels = None,
                 funcs = None\<rparr>,
             Op \<lparr>op = ''guard'', dest = None, type = None, args = Some [''_spec_cmp_1''],
                 val = None, labels = Some [''.bail''], funcs = None\<rparr>] \<and>
          postCommitPrints st' = [Op (effect ''print'' [''c''])]"
    by (simp add: effect_def initState_def constInt_def decimal.simps)
  have two: "lowerStep ?cm ''.bail'' initState (Op (effect ''print'' [''z'']))
     = Continue
         \<lparr>guarded =
            [Op \<lparr>op = ''const'', dest = Some ''_spec_false_0'', type = Some (PrimType ''bool''),
                 args = None, val = Some (VBool False), labels = None, funcs = None\<rparr>,
             Op \<lparr>op = ''guard'', dest = None, type = None, args = Some [''_spec_false_0''],
                 val = None, labels = Some [''.bail''], funcs = None\<rparr>],
          postCommitPrints = [], synthCounter = 1\<rparr>"
    by (simp add: effect_def initState_def pushFalseGuard_def boolConst_def guardOn_def
        decimal.simps Let_def)
  from one two show ?thesis by (rule conjI)
qed

section \<open>Guard Lowering of control transfers\<close>

lemma lowerStep_callret:
  "op ins = ''call'' \<or> op ins = ''ret'' \<Longrightarrow>
   lowerStep cm bail st (Op ins) = Break (pushFalseGuard bail st)"
  by auto

lemma lowerLoop_append:
  "\<not> list_ex isCallRet pre \<Longrightarrow>
   lowerLoop cm bail st (pre @ rest) =
     (case lowerLoop cm bail st pre of
        Inl e \<Rightarrow> Inl e
      | Inr st' \<Rightarrow> lowerLoop cm bail st' rest)"
proof (induction pre arbitrary: st)
  case Nil
  show ?case by simp
next
  case (Cons x xs)
  then have nx: "\<not> isCallRet x" and nxs: "\<not> list_ex isCallRet xs" by auto
  show ?case
  proof (cases "lowerStep cm bail st x")
    case (Continue s1)
    then show ?thesis using Cons.IH [OF nxs, of s1] by simp
  next
    case (Break s1)
    with lowerStep_Break [OF Break] nx show ?thesis by simp
  next
    case (Throw e)
    then show ?thesis by simp
  qed
qed

lemma lowerStep_Throw_iff:
  "lowerStep cm bail st x = Throw e \<longleftrightarrow> isMalformedBr x \<and> e = MalformedControl"
proof (cases x)
  case (Label l)
  then show ?thesis by simp
next
  case (Op i)
  show ?thesis
  proof (cases "op i = ''br''")
    case True
    then show ?thesis using Op
      by (auto split: option.splits list.splits)
  next
    case False
    then show ?thesis using Op by (auto simp: Let_def split: prod.splits)
  qed
qed

lemma lowerLoop_Inl_iff:
  "lowerLoop cm bail st t = Inl e \<longleftrightarrow>
     list_ex isMalformedBr (takeWhile (\<lambda>i. \<not> isCallRet i) t) \<and> e = MalformedControl"
proof (induction t arbitrary: st)
  case Nil
  show ?case by simp
next
  case (Cons x xs)
  show ?case
  proof (cases "lowerStep cm bail st x")
    case (Continue s1)
    have "\<not> isCallRet x" using lowerStep_Continue_prints [OF Continue] by simp
    moreover have "\<not> isMalformedBr x"
      using lowerStep_Throw_iff [of cm bail st x MalformedControl] Continue by auto
    ultimately show ?thesis using Continue Cons.IH [of s1] by simp
  next
    case (Break s1)
    with lowerStep_Break [OF Break] show ?thesis by simp
  next
    case (Throw e')
    have "isMalformedBr x \<and> e' = MalformedControl"
      using lowerStep_Throw_iff [of cm bail st x e'] Throw by simp
    moreover have "\<not> isCallRet x" using lowerStep_Throw [OF Throw] .
    ultimately show ?thesis using Throw by auto
  qed
qed

lemma lowerLoop_total:
  "\<not> list_ex isMalformedBr (takeWhile (\<lambda>i. \<not> isCallRet i) t) \<Longrightarrow>
   \<exists>st'. lowerLoop cm bail st t = Inr st'"
  using lowerLoop_Inl_iff [of cm bail st t]
  by (cases "lowerLoop cm bail st t") auto

text \<open>
  Claim C4. Let \<open>ins\<close> be the first \<^verbatim>\<open>call\<close> or \<^verbatim>\<open>ret\<close> of a trace, after the instructions \<open>pre\<close>
  (none of them a \<^verbatim>\<open>br\<close> without condition, on which the lowering raises) and before \<open>post\<close>.
  Then Guard Lowering returns, and its Guarded Sequence is that of \<open>pre\<close> followed by exactly
  two instructions: a \<^verbatim>\<open>const\<close> \<^verbatim>\<open>false\<close> of type \<^verbatim>\<open>bool\<close> whose name carries the current value of
  the counter of synthesized names, and a guard on it to the bail label. Neither \<open>ins\<close> nor
  any instruction of \<open>post\<close> contributes to the result.
\<close>

theorem call_ret_truncation:
  assumes cr: "op ins = ''call'' \<or> op ins = ''ret''"
    and first: "\<not> list_ex isCallRet pre"
    and wf: "\<not> list_ex isMalformedBr pre"
  shows
    "\<exists>st. guardLowering constMap bailLabel pre = Inr st \<and>
       guardLowering constMap bailLabel (pre @ Op ins # post) =
         Inr \<lparr>guarded = guarded st @
                 [Op \<lparr>op = ''const'',
                      dest = Some (''_spec_false_'' @ decimal (synthCounter st)),
                      type = Some (PrimType ''bool''), args = None, val = Some (VBool False),
                      labels = None, funcs = None\<rparr>,
                  Op \<lparr>op = ''guard'', dest = None, type = None,
                      args = Some [''_spec_false_'' @ decimal (synthCounter st)], val = None,
                      labels = Some [bailLabel], funcs = None\<rparr>],
              postCommitPrints = postCommitPrints st,
              synthCounter = synthCounter st + 1\<rparr>"
proof -
  have tw: "takeWhile (\<lambda>i. \<not> isCallRet i) pre = pre"
    using first by (simp add: list_ex_iff)
  obtain st where st: "lowerLoop constMap bailLabel initState pre = Inr st"
    using lowerLoop_total [of pre constMap bailLabel initState] wf tw by auto
  have "lowerLoop constMap bailLabel initState (pre @ Op ins # post)
      = lowerLoop constMap bailLabel st (Op ins # post)"
    using lowerLoop_append [OF first, of constMap bailLabel initState "Op ins # post"] st
    by simp
  also have "\<dots> = Inr (pushFalseGuard bailLabel st)"
    using lowerStep_callret [OF cr, of constMap bailLabel st] by simp
  finally show ?thesis using st
    by (auto simp: guardLowering_def pushFalseGuard_def Let_def boolConst_def guardOn_def)
qed


theorem call_ret_truncation_witness:
  "guardLowering Map.empty ''.bail''
     [constInt ''a'' 3, Op (effect ''ret'' []), Op (effect ''print'' [''a''])]
   = Inr \<lparr>guarded =
            [constInt ''a'' 3,
             Op \<lparr>op = ''const'', dest = Some ''_spec_false_0'', type = Some (PrimType ''bool''),
                 args = None, val = Some (VBool False), labels = None, funcs = None\<rparr>,
             Op \<lparr>op = ''guard'', dest = None, type = None, args = Some [''_spec_false_0''],
                 val = None, labels = Some [''.bail''], funcs = None\<rparr>],
          postCommitPrints = [], synthCounter = 1\<rparr>"
proof -
  have h1: "op (effect ''ret'' []) = ''call'' \<or> op (effect ''ret'' []) = ''ret''"
    by (simp add: effect_def)
  have h2: "\<not> list_ex isCallRet [constInt ''a'' 3]" by (simp add: constInt_def)
  have h3: "\<not> list_ex isMalformedBr [constInt ''a'' 3]" by (simp add: constInt_def)
  have pre: "guardLowering Map.empty ''.bail'' [constInt ''a'' 3]
      = Inr \<lparr>guarded = [constInt ''a'' 3], postCommitPrints = [], synthCounter = 0\<rparr>"
    by (simp add: guardLowering_def initState_def constInt_def)
  show ?thesis
    using call_ret_truncation [OF h1 h2 h3, of Map.empty "''.bail''"
        "[Op (effect ''print'' [''a''])]"] pre
    by (auto simp: decimal.simps)
qed

text \<open>
  Claim C7. Guard Lowering at a \<^verbatim>\<open>br\<close>, in any state \<open>st\<close>: with a (non-empty) first argument
  \<open>c\<close> the step appends a guard on \<open>c\<close> to the bail label and nothing else; without one it
  raises. A step raises on no other instruction, and a whole lowering raises exactly when a
  \<^verbatim>\<open>br\<close> without condition is among the instructions it processes, those before the first
  \<^verbatim>\<open>call\<close> or \<^verbatim>\<open>ret\<close>; the error is always the same one.
\<close>

theorem br_lowering:
  "(op ins = ''br'' \<and> args ins = Some (c # zs) \<and> c \<noteq> [] \<longrightarrow>
      lowerStep constMap bailLabel st (Op ins) =
        Continue (st\<lparr>guarded := guarded st @
           [Op \<lparr>op = ''guard'', dest = None, type = None, args = Some [c], val = None,
                labels = Some [bailLabel], funcs = None\<rparr>]\<rparr>)) \<and>
   (op ins = ''br'' \<and> (args ins = None \<or> args ins = Some [] \<or> args ins = Some ([] # zs)) \<longrightarrow>
      lowerStep constMap bailLabel st (Op ins) = Throw MalformedControl) \<and>
   (\<forall>x e. lowerStep constMap bailLabel st x = Throw e \<longrightarrow>
      e = MalformedControl \<and>
      (\<exists>i. x = Op i \<and> op i = ''br'' \<and>
           (args i = None \<or> args i = Some [] \<or> (\<exists>ys. args i = Some ([] # ys))))) \<and>
   (\<forall>t. (\<exists>e. guardLowering constMap bailLabel t = Inl e) \<longleftrightarrow>
        list_ex isMalformedBr (takeWhile (\<lambda>i. \<not> isCallRet i) t)) \<and>
   (\<forall>t e. guardLowering constMap bailLabel t = Inl e \<longrightarrow> e = MalformedControl)"
proof (intro conjI impI allI)
  assume "op ins = ''br'' \<and> args ins = Some (c # zs) \<and> c \<noteq> []"
  then show "lowerStep constMap bailLabel st (Op ins) =
        Continue (st\<lparr>guarded := guarded st @
           [Op \<lparr>op = ''guard'', dest = None, type = None, args = Some [c], val = None,
                labels = Some [bailLabel], funcs = None\<rparr>]\<rparr>)"
    by (simp add: guardOn_def)
next
  assume "op ins = ''br'' \<and> (args ins = None \<or> args ins = Some [] \<or> args ins = Some ([] # zs))"
  then show "lowerStep constMap bailLabel st (Op ins) = Throw MalformedControl"
    by auto
next
  fix x e
  assume t: "lowerStep constMap bailLabel st x = Throw e"
  then show "e = MalformedControl"
    using lowerStep_Throw_iff [of constMap bailLabel st x e] by simp
  from t have "isMalformedBr x"
    using lowerStep_Throw_iff [of constMap bailLabel st x e] by simp
  then show "\<exists>i. x = Op i \<and> op i = ''br'' \<and>
           (args i = None \<or> args i = Some [] \<or> (\<exists>ys. args i = Some ([] # ys)))"
    by (cases x) (auto split: option.splits list.splits)
next
  fix t
  show "(\<exists>e. guardLowering constMap bailLabel t = Inl e) \<longleftrightarrow>
        list_ex isMalformedBr (takeWhile (\<lambda>i. \<not> isCallRet i) t)"
    using lowerLoop_Inl_iff [of constMap bailLabel initState t]
    by (auto simp: guardLowering_def)
next
  fix t e
  assume "guardLowering constMap bailLabel t = Inl e"
  then show "e = MalformedControl"
    using lowerLoop_Inl_iff [of constMap bailLabel initState t e]
    by (simp add: guardLowering_def)
qed

theorem br_lowering_witness:
  "lowerStep Map.empty ''.bail'' initState (Op (effect ''br'' [''cond'']))
     = Continue
         \<lparr>guarded =
            [Op \<lparr>op = ''guard'', dest = None, type = None, args = Some [''cond''],
                 val = None, labels = Some [''.bail''], funcs = None\<rparr>],
          postCommitPrints = ([] :: int instruction list), synthCounter = 0\<rparr> \<and>
   lowerStep Map.empty ''.bail'' (initState :: int lower_state) (Op (effect ''br'' []))
     = Throw MalformedControl \<and>
   guardLowering Map.empty ''.bail'' [constInt ''a'' 3, Op (effect ''br'' [])]
     = Inl MalformedControl"
proof -
  have 1: "op (effect ''br'' [''cond'']) = ''br'' \<and>
           args (effect ''br'' [''cond'']) = Some (''cond'' # []) \<and> ''cond'' \<noteq> []"
    by (simp add: effect_def)
  have 2: "op (effect ''br'' []) = ''br'' \<and>
           (args (effect ''br'' []) = None \<or> args (effect ''br'' []) = Some [] \<or>
            args (effect ''br'' []) = Some ([] # []))"
    by (simp add: effect_def)
  have 3: "list_ex isMalformedBr
             (takeWhile (\<lambda>i. \<not> isCallRet i) [constInt ''a'' 3, Op (effect ''br'' [])])"
    by (simp add: constInt_def effect_def)
  note a = mp [OF br_lowering [of "effect ''br'' [''cond'']" "''cond''" "[]" Map.empty
                      "''.bail''" initState, THEN conjunct1] 1]
  note b = mp [OF br_lowering [of "effect ''br'' []" "''cond''" "[]" Map.empty
                      "''.bail''" initState, THEN conjunct2, THEN conjunct1] 2]
  note c = br_lowering [of "effect ''br'' []" "''cond''" "[]" Map.empty
                      "''.bail''" initState, THEN conjunct2, THEN conjunct2, THEN conjunct2]
  from c 3 obtain e where
    e: "guardLowering Map.empty ''.bail'' [constInt ''a'' 3, Op (effect ''br'' [])] = Inl e"
    by blast
  with c have "e = MalformedControl" by blast
  with a b e show ?thesis by (simp add: initState_def)
qed

section \<open>The assembler and the replacement of \<^verbatim>\<open>main\<close>\<close>

lemma scanBool_rev_last:
  assumes "boolDest x = Some d" and "\<forall>y\<in>set after. boolDest y = None"
  shows "scanBool (rev (before @ x # after)) = Some d"
  using assms(2)
proof (induction after rule: rev_induct)
  case Nil
  then show ?case using assms(1) by simp
next
  case (snoc y ys)
  then show ?case by simp
qed

lemma scanBool_none:
  "\<forall>y\<in>set xs. boolDest y = None \<Longrightarrow> scanBool xs = None"
  by (induction xs) auto

lemma boolDest_None_iff:
  "boolDest x = None \<longleftrightarrow>
     (\<forall>j e. x = Op j \<and> dest j = Some e \<and> e \<noteq> [] \<longrightarrow> type j \<noteq> Some (PrimType ''bool''))"
  by (cases x) (auto split: option.splits)

lemma gatingGuard_has_guard: "list_ex isGuard (g @ gatingGuard g bail)"
  by (auto simp: gatingGuard_def hasGuard_def guardOn_def list_ex_iff split: option.splits)

lemma gatingGuard_cases:
  "\<exists>gate rest.
     newInstrs g prints bailLabel body =
       Op \<lparr>op = ''speculate'', dest = None, type = None, args = None, val = None,
           labels = None, funcs = None\<rparr> # g @ gate @
       Op \<lparr>op = ''commit'', dest = None, type = None, args = None, val = None,
           labels = None, funcs = None\<rparr> # rest \<and>
     list_ex isGuard (g @ gate) \<and>
     (list_ex isGuard g \<longrightarrow> gate = []) \<and>
     (\<not> list_ex isGuard g \<longrightarrow>
        (\<forall>before i d after.
           g = before @ Op i # after \<and> dest i = Some d \<and> d \<noteq> [] \<and>
           type i = Some (PrimType ''bool'') \<and>
           (\<forall>j e. Op j \<in> set after \<and> dest j = Some e \<and> e \<noteq> []
                    \<longrightarrow> type j \<noteq> Some (PrimType ''bool''))
           \<longrightarrow> gate =
                 [Op \<lparr>op = ''guard'', dest = None, type = None, args = Some [d], val = None,
                      labels = Some [bailLabel], funcs = None\<rparr>]) \<and>
        ((\<forall>j e. Op j \<in> set g \<and> dest j = Some e \<and> e \<noteq> []
                  \<longrightarrow> type j \<noteq> Some (PrimType ''bool''))
           \<longrightarrow> gate =
                 [Op \<lparr>op = ''const'', dest = Some ''_spec_true_guard'',
                      type = Some (PrimType ''bool''), args = None, val = Some (VBool True),
                      labels = None, funcs = None\<rparr>,
                  Op \<lparr>op = ''guard'', dest = None, type = None,
                      args = Some [''_spec_true_guard''], val = None,
                      labels = Some [bailLabel], funcs = None\<rparr>]))"
proof (intro exI conjI impI allI)
  show "newInstrs g prints bailLabel body =
       Op \<lparr>op = ''speculate'', dest = None, type = None, args = None, val = None,
           labels = None, funcs = None\<rparr> # g @ gatingGuard g bailLabel @
       Op \<lparr>op = ''commit'', dest = None, type = None, args = None, val = None,
           labels = None, funcs = None\<rparr> #
       (prints @ [Op (mkOp ''ret''), Label bailLabel] @ fallbackInstrs body)"
    by (simp add: newInstrs_def mkOp_def)
  show "list_ex isGuard (g @ gatingGuard g bailLabel)"
    by (rule gatingGuard_has_guard)
next
  assume "list_ex isGuard g"
  then show "gatingGuard g bailLabel = []"
    by (simp add: gatingGuard_def hasGuard_def)
next
  fix before i d after
  assume ng: "\<not> list_ex isGuard g"
    and h: "g = before @ Op i # after \<and> dest i = Some d \<and> d \<noteq> [] \<and>
           type i = Some (PrimType ''bool'') \<and>
           (\<forall>j e. Op j \<in> set after \<and> dest j = Some e \<and> e \<noteq> []
                    \<longrightarrow> type j \<noteq> Some (PrimType ''bool''))"
  have b: "boolDest (Op i) = Some d" using h by simp
  have "\<forall>y\<in>set after. boolDest y = None"
    using h unfolding boolDest_None_iff by blast
  from scanBool_rev_last [OF b this, of before]
  have "scanBool (rev g) = Some d" using h by simp
  with ng show "gatingGuard g bailLabel =
                 [Op \<lparr>op = ''guard'', dest = None, type = None, args = Some [d], val = None,
                      labels = Some [bailLabel], funcs = None\<rparr>]"
    by (simp add: gatingGuard_def hasGuard_def guardOn_def)
next
  assume ng: "\<not> list_ex isGuard g"
    and h: "\<forall>j e. Op j \<in> set g \<and> dest j = Some e \<and> e \<noteq> []
                  \<longrightarrow> type j \<noteq> Some (PrimType ''bool'')"
  have "\<forall>y\<in>set (rev g). boolDest y = None"
    using h unfolding boolDest_None_iff by auto
  then have "scanBool (rev g) = None" by (rule scanBool_none)
  with ng show "gatingGuard g bailLabel =
                 [Op \<lparr>op = ''const'', dest = Some ''_spec_true_guard'',
                      type = Some (PrimType ''bool''), args = None, val = Some (VBool True),
                      labels = None, funcs = None\<rparr>,
                  Op \<lparr>op = ''guard'', dest = None, type = None,
                      args = Some [''_spec_true_guard''], val = None,
                      labels = Some [bailLabel], funcs = None\<rparr>]"
    by (simp add: gatingGuard_def hasGuard_def guardOn_def boolConst_def)
qed


lemma findIndex_Some:
  "findIndex P xs = Some i \<Longrightarrow> i < length xs \<and> P (xs ! i) \<and> (\<forall>j<i. \<not> P (xs ! j))"
proof (induction xs arbitrary: i)
  case Nil
  then show ?case by simp
next
  case (Cons x xs)
  show ?case
  proof (cases "P x")
    case True
    then show ?thesis using Cons.prems by simp
  next
    case False
    then obtain k where k: "findIndex P xs = Some k" "i = Suc k"
      using Cons.prems by auto
    from Cons.IH [OF k(1)] False k(2) show ?thesis
      by (auto simp: less_Suc_eq_0_disj)
  qed
qed

lemma list_all_update_body:
  assumes "i < length fs" and "instrs (fs ! i) \<noteq> None"
  shows "list_all (\<lambda>f. instrs f \<noteq> None) (fs[i := (fs ! i)\<lparr>instrs := Some b\<rparr>])
           = list_all (\<lambda>f. instrs f \<noteq> None) fs"
  using assms by (auto simp: list_all_length nth_list_update)

lemma main_Inr_iff:
  "main A t prog = Inr prog' \<longleftrightarrow>
     (\<exists>st idx body.
        t \<noteq> [] \<and>
        guardLowering (buildConstMap (optimizeTrace A t)) ''.bail'' (optimizeTrace A t) = Inr st \<and>
        findIndex (\<lambda>f. name f = ''main'') (functions_of prog) = Some idx \<and>
        instrs (functions_of prog ! idx) = Some body \<and>
        list_all (\<lambda>f. instrs f \<noteq> None) (functions_of prog) \<and>
        prog' = prog\<lparr>functions_of := (functions_of prog)
                  [idx := (functions_of prog ! idx)
                     \<lparr>instrs := Some (newInstrs (guarded st) (postCommitPrints st) ''.bail''
                                        body)\<rparr>]\<rparr>)"
proof (cases "t = []")
  case True
  then show ?thesis by (simp add: main_def)
next
  case ne: False
  let ?opt = "optimizeTrace A t"
  show ?thesis
  proof (cases "guardLowering (buildConstMap ?opt) ''.bail'' ?opt")
    case (Inl e)
    then show ?thesis using ne by (simp add: main_def Let_def)
  next
    case (Inr st)
    show ?thesis
    proof (cases "findIndex (\<lambda>f. name f = ''main'') (functions_of prog)")
      case None
      then show ?thesis using ne Inr by (simp add: main_def Let_def)
    next
      case (Some idx)
      then have len: "idx < length (functions_of prog)"
        using findIndex_Some by blast
      show ?thesis
      proof (cases "instrs (functions_of prog ! idx)")
        case None
        then show ?thesis using ne Inr Some by (simp add: main_def Let_def)
      next
        case (Some body)
        have nn: "instrs (functions_of prog ! idx) \<noteq> None" using Some by simp
        show ?thesis
          using ne Inr \<open>findIndex (\<lambda>f. name f = ''main'') (functions_of prog) = Some idx\<close>
            Some list_all_update_body [OF len nn]
          by (auto simp: main_def Let_def validateBrilProgram_def)
      qed
    qed
  qed
qed


section \<open>Label entries in the trace\<close>

lemma printArgStep_no_label:
  "printArgStep cm bail a (st, w) = (st', w') \<Longrightarrow>
   \<not> list_ex isLabel (guarded st) \<Longrightarrow> \<not> list_ex isLabel (guarded st')"
  by (auto simp: pushFalseGuard_def Let_def split: option.splits)

lemma fold_printArgStep_no_label:
  "fold (printArgStep cm bail) as (st, w) = (st', w') \<Longrightarrow>
   \<not> list_ex isLabel (guarded st) \<Longrightarrow> \<not> list_ex isLabel (guarded st')"
proof (induction as arbitrary: st w)
  case Nil
  then show ?case by simp
next
  case (Cons a as)
  obtain s1 w1 where s: "printArgStep cm bail a (st, w) = (s1, w1)"
    by (cases "printArgStep cm bail a (st, w)")
  have r: "fold (printArgStep cm bail) as (s1, w1) = (st', w')"
    using Cons.prems(1) s by simp
  from Cons.IH [OF r printArgStep_no_label [OF s Cons.prems(2)]] show ?case .
qed

lemma lowerStep_no_label:
  assumes "lowerStep cm bail st x = Continue st' \<or> lowerStep cm bail st x = Break st'"
    and "\<not> list_ex isLabel (guarded st)"
  shows "\<not> list_ex isLabel (guarded st')"
proof (cases x)
  case (Label l)
  then show ?thesis using assms by auto
next
  case (Op i)
  show ?thesis
  proof (cases "op i = ''print''")
    case True
    obtain s1 w1 where f: "fold (printArgStep cm bail) (printArgs i) (st, False) = (s1, w1)"
      by (cases "fold (printArgStep cm bail) (printArgs i) (st, False)")
    have "st' = (if \<not> w1 then s1\<lparr>postCommitPrints := postCommitPrints s1 @ [Op i]\<rparr> else s1)"
      using assms(1) Op True f lowerStep_print [OF True, of cm bail st] by auto
    then show ?thesis using fold_printArgStep_no_label [OF f assms(2)] by auto
  next
    case False
    then show ?thesis using assms Op
      by (auto simp: pushFalseGuard_def Let_def split: if_splits option.splits)
  qed
qed

lemma lowerLoop_no_label:
  "lowerLoop cm bail st t = Inr st' \<Longrightarrow>
   \<not> list_ex isLabel (guarded st) \<Longrightarrow> \<not> list_ex isLabel (guarded st')"
proof (induction t arbitrary: st)
  case Nil
  then show ?case by simp
next
  case (Cons x xs)
  show ?case
  proof (cases "lowerStep cm bail st x")
    case (Continue s1)
    then have r: "lowerLoop cm bail s1 xs = Inr st'" using Cons.prems(1) by simp
    have "\<not> list_ex isLabel (guarded s1)"
      using lowerStep_no_label [of cm bail st x s1] Continue Cons.prems(2) by simp
    from Cons.IH [OF r this] show ?thesis .
  next
    case (Break s1)
    then have "st' = s1" using Cons.prems(1) by simp
    then show ?thesis
      using lowerStep_no_label [of cm bail st x s1] Break Cons.prems(2) by simp
  next
    case (Throw e)
    then show ?thesis using Cons.prems(1) by simp
  qed
qed

lemma guardLowering_no_label:
  assumes "guardLowering cm bail t = Inr st"
  shows "\<not> list_ex isLabel (guarded st) \<and> \<not> list_ex isLabel (postCommitPrints st)"
proof
  show "\<not> list_ex isLabel (guarded st)"
    using lowerLoop_no_label [of cm bail initState t st] assms
    by (simp add: guardLowering_def initState_def)
  have "postCommitPrints st = filter (isKnownPrint cm) (takeWhile (\<lambda>i. \<not> isCallRet i) t)"
    using lowerLoop_prints [of cm bail initState t st] assms
    by (simp add: guardLowering_def initState_def)
  moreover have "\<And>x. isKnownPrint cm x \<Longrightarrow> \<not> isLabel x"
    by (case_tac x) auto
  ultimately show "\<not> list_ex isLabel (postCommitPrints st)"
    by (auto simp: list_ex_iff)
qed

lemma lowerLoop_skip_labels:
  "lowerLoop cm bail st t = lowerLoop cm bail st (filter (\<lambda>x. \<not> isLabel x) t)"
proof (induction t arbitrary: st)
  case Nil
  show ?case by simp
next
  case (Cons x xs)
  show ?case
  proof (cases x)
    case (Label l)
    then show ?thesis using Cons.IH [of st] by simp
  next
    case (Op i)
    then show ?thesis using Cons.IH
      by (cases "lowerStep cm bail st x") auto
  qed
qed

lemma fold_foldStep_skip_labels:
  "fold (foldStep A) t s = fold (foldStep A) (filter (\<lambda>x. \<not> isLabel x) t) s"
proof (induction t arbitrary: s)
  case Nil
  show ?case by simp
next
  case (Cons x xs)
  show ?case
  proof (cases x)
    case (Label l)
    then show ?thesis using Cons.IH [of s] by (cases s) simp
  next
    case (Op i)
    then show ?thesis using Cons.IH by simp
  qed
qed

lemma foldStep_no_label:
  "\<not> list_ex isLabel (snd s) \<Longrightarrow> \<not> list_ex isLabel (snd (foldStep A x s))"
  by (cases x; cases s) (auto split: option.splits bool.splits prod.splits)

lemma fold_foldStep_no_label:
  "\<not> list_ex isLabel (snd s) \<Longrightarrow> \<not> list_ex isLabel (snd (fold (foldStep A) t s))"
proof (induction t arbitrary: s)
  case Nil
  then show ?case by simp
next
  case (Cons x xs)
  from Cons.IH [OF foldStep_no_label [OF Cons.prems]] show ?case by simp
qed

lemma optimizeTrace_skip_labels:
  "optimizeTrace A t = optimizeTrace A (filter (\<lambda>x. \<not> isLabel x) t)"
  using fold_foldStep_skip_labels [of A t "(Map.empty, [])"]
  by (simp add: optimizeTrace_def foldPass_def)

lemma optimizeTrace_no_label: "\<not> list_ex isLabel (optimizeTrace A t)"
proof -
  have "\<not> list_ex isLabel (snd (foldPass A t))"
    using fold_foldStep_no_label [of "(Map.empty, [])" A t] by (simp add: foldPass_def)
  then show ?thesis by (auto simp: optimizeTrace_def Let_def list_ex_iff)
qed

section \<open>The scenario and the assembled \<^verbatim>\<open>main\<close>\<close>

lemma scenario_reduced:
  "optimizeTrace small_int_arith scenario_trace
     = [constInt ''c'' 7, Op (effect ''print'' [''c''])]"
  by (simp add: scenario_trace_def optimizeTrace_def foldPass_def collectUsed_def constInt_def
      binop_def effect_def tryFold_def fold_value_def folded_const_def small_int_arith_def)

lemma scenario_constMap:
  "buildConstMap [constInt ''c'' 7, Op (effect ''print'' [''c''])] = [''c'' \<mapsto> Some (VNum 7)]"
  by (simp add: buildConstMap_def constInt_def effect_def)

lemma scenario_lowered:
  "guardLowering [''c'' \<mapsto> Some (VNum 7)] ''.bail''
     [constInt ''c'' 7, Op (effect ''print'' [''c''])]
   = Inr \<lparr>guarded =
            [constInt ''c'' 7,
             constInt ''_spec_exp_0'' 7,
             Op \<lparr>op = ''eq'', dest = Some ''_spec_cmp_1'', type = None,
                 args = Some [''c'', ''_spec_exp_0''], val = None, labels = None,
                 funcs = None\<rparr>,
             Op \<lparr>op = ''guard'', dest = None, type = None, args = Some [''_spec_cmp_1''],
                 val = None, labels = Some [''.bail''], funcs = None\<rparr>],
          postCommitPrints = [Op (effect ''print'' [''c''])], synthCounter = 2\<rparr>"
  by (simp add: guardLowering_def initState_def constInt_def effect_def expConst_def
      cmpInstr_def guardOn_def decimal.simps Let_def)

lemma scenario_main:
  "main small_int_arith scenario_trace scenario_prog = Inr scenario_result"
proof -
  have ne: "scenario_trace \<noteq> []" by (simp add: scenario_trace_def)
  have idx: "findIndex (\<lambda>f. name f = ''main'') (functions_of scenario_prog) = Some 1"
    by (simp add: scenario_prog_def helperFunc_def mainFunc_def)
  have body: "instrs (functions_of scenario_prog ! 1) = Some scenario_trace"
    by (simp add: scenario_prog_def mainFunc_def)
  have all: "list_all (\<lambda>f. instrs f \<noteq> None) (functions_of scenario_prog)"
    by (simp add: scenario_prog_def helperFunc_def mainFunc_def)
  have new: "newInstrs
      [constInt ''c'' 7,
             constInt ''_spec_exp_0'' 7,
             Op \<lparr>op = ''eq'', dest = Some ''_spec_cmp_1'', type = None,
                 args = Some [''c'', ''_spec_exp_0''], val = None, labels = None,
                 funcs = None\<rparr>,
             Op \<lparr>op = ''guard'', dest = None, type = None, args = Some [''_spec_cmp_1''],
                 val = None, labels = Some [''.bail''], funcs = None\<rparr>]
      [Op (effect ''print'' [''c''])] ''.bail'' scenario_trace
      = scenario_body @ scenario_trace @ [Op (mkOp ''ret'')]"
    by (simp add: newInstrs_def gatingGuard_def hasGuard_def fallbackInstrs_def
        scenario_body_def scenario_trace_def effect_def constInt_def)
  show ?thesis
    unfolding main_Inr_iff scenario_reduced scenario_constMap
    using ne idx body all scenario_lowered new
    by (simp add: scenario_prog_def mainFunc_def scenario_result_def)
qed


lemma gatingGuard_no_label: "\<not> list_ex isLabel (gatingGuard g bail)"
  by (simp add: gatingGuard_def split: option.splits)

lemma newInstrs_fallback:
  "newInstrs g prints bail body =
     (Op (mkOp ''speculate'') # g @ gatingGuard g bail @ Op (mkOp ''commit'') # prints @
        [Op (mkOp ''ret'')]) @
     Label bail # body @
     (if body \<noteq> [] \<and> (\<exists>i. last body = Op i \<and> op i = ''ret'') then []
      else [Op (mkOp ''ret'')])"
proof -
  have "isRet (last body) \<longleftrightarrow> (\<exists>i. last body = Op i \<and> op i = ''ret'')"
    by (cases "last body") auto
  then show ?thesis by (simp add: newInstrs_def fallbackInstrs_def)
qed

lemma newInstrs_last: "\<exists>i. last (newInstrs g prints bail body) = Op i \<and> op i = ''ret''"
proof (cases "body \<noteq> [] \<and> isRet (last body)")
  case True
  then obtain i where "last body = Op i" "op i = ''ret''"
    by (cases "last body") auto
  with True show ?thesis by (simp add: newInstrs_def fallbackInstrs_def)
next
  case False
  then show ?thesis by (auto simp: newInstrs_def fallbackInstrs_def mkOp_def)
qed

lemma main_InrE:
  assumes "main A t prog = Inr prog'"
  obtains st idx body where
    "t \<noteq> []"
    "guardLowering (buildConstMap (optimizeTrace A t)) ''.bail'' (optimizeTrace A t) = Inr st"
    "findIndex (\<lambda>f. name f = ''main'') (functions_of prog) = Some idx"
    "idx < length (functions_of prog)"
    "name (functions_of prog ! idx) = ''main''"
    "instrs (functions_of prog ! idx) = Some body"
    "list_all (\<lambda>f. instrs f \<noteq> None) (functions_of prog)"
    "functions_of prog' = (functions_of prog)
        [idx := (functions_of prog ! idx)
           \<lparr>instrs := Some (newInstrs (guarded st) (postCommitPrints st) ''.bail'' body)\<rparr>]"
proof -
  from assms obtain st idx body where h:
    "t \<noteq> [] \<and>
     guardLowering (buildConstMap (optimizeTrace A t)) ''.bail'' (optimizeTrace A t) = Inr st \<and>
     findIndex (\<lambda>f. name f = ''main'') (functions_of prog) = Some idx \<and>
     instrs (functions_of prog ! idx) = Some body \<and>
     list_all (\<lambda>f. instrs f \<noteq> None) (functions_of prog) \<and>
     prog' = prog\<lparr>functions_of := (functions_of prog)
               [idx := (functions_of prog ! idx)
                  \<lparr>instrs := Some (newInstrs (guarded st) (postCommitPrints st) ''.bail''
                                     body)\<rparr>]\<rparr>"
    unfolding main_Inr_iff by (elim exE)
  have "idx < length (functions_of prog) \<and> name (functions_of prog ! idx) = ''main''"
    using findIndex_Some [of "\<lambda>f. name f = ''main''" "functions_of prog" idx] h by simp
  with h show thesis using that [of st idx body] by simp
qed

text \<open>
  Claim C5. Whenever \<^verbatim>\<open>main\<close> produces a program, the new body of the function \<^verbatim>\<open>main\<close> is
  \<^verbatim>\<open>speculate\<close>, the Guarded Sequence, a gating part, \<^verbatim>\<open>commit\<close>, and a rest, and the Guarded
  Sequence with the gating part holds a guard. The gating part is empty if the Guarded
  Sequence holds a guard. Otherwise it is a guard on the destination of the last instruction
  of the Guarded Sequence that has a (non-empty) destination and the type \<^verbatim>\<open>bool\<close>, to the bail
  label, and if there is no such instruction it is a \<^verbatim>\<open>const\<close> \<^verbatim>\<open>true\<close> of type \<^verbatim>\<open>bool\<close> followed by
  a guard on it.
\<close>

theorem gating_guard:
  assumes ok: "main A t prog = Inr prog'"
  shows
    "\<exists>idx st gate rest.
       findIndex (\<lambda>f. name f = ''main'') (functions_of prog) = Some idx \<and>
       guardLowering (buildConstMap (optimizeTrace A t)) ''.bail'' (optimizeTrace A t) = Inr st \<and>
       instrs (functions_of prog' ! idx) =
         Some (Op \<lparr>op = ''speculate'', dest = None, type = None, args = None, val = None,
                   labels = None, funcs = None\<rparr> # guarded st @ gate @
               Op \<lparr>op = ''commit'', dest = None, type = None, args = None, val = None,
                   labels = None, funcs = None\<rparr> # rest) \<and>
       list_ex isGuard (guarded st @ gate) \<and>
       (list_ex isGuard (guarded st) \<longrightarrow> gate = []) \<and>
       (\<not> list_ex isGuard (guarded st) \<longrightarrow>
          (\<forall>before i d after.
             guarded st = before @ Op i # after \<and> dest i = Some d \<and> d \<noteq> [] \<and>
             type i = Some (PrimType ''bool'') \<and>
             (\<forall>j e. Op j \<in> set after \<and> dest j = Some e \<and> e \<noteq> []
                      \<longrightarrow> type j \<noteq> Some (PrimType ''bool''))
             \<longrightarrow> gate =
                   [Op \<lparr>op = ''guard'', dest = None, type = None, args = Some [d], val = None,
                        labels = Some [''.bail''], funcs = None\<rparr>]) \<and>
          ((\<forall>j e. Op j \<in> set (guarded st) \<and> dest j = Some e \<and> e \<noteq> []
                    \<longrightarrow> type j \<noteq> Some (PrimType ''bool''))
             \<longrightarrow> gate =
                   [Op \<lparr>op = ''const'', dest = Some ''_spec_true_guard'',
                        type = Some (PrimType ''bool''), args = None, val = Some (VBool True),
                        labels = None, funcs = None\<rparr>,
                    Op \<lparr>op = ''guard'', dest = None, type = None,
                        args = Some [''_spec_true_guard''], val = None,
                        labels = Some [''.bail''], funcs = None\<rparr>]))"
  using ok
proof (rule main_InrE)
  fix st idx body
  assume low: "guardLowering (buildConstMap (optimizeTrace A t)) ''.bail'' (optimizeTrace A t)
                 = Inr st"
    and idx: "findIndex (\<lambda>f. name f = ''main'') (functions_of prog) = Some idx"
    and len: "idx < length (functions_of prog)"
    and p: "functions_of prog' = (functions_of prog)
        [idx := (functions_of prog ! idx)
           \<lparr>instrs := Some (newInstrs (guarded st) (postCommitPrints st) ''.bail'' body)\<rparr>]"
  have new: "instrs (functions_of prog' ! idx)
      = Some (newInstrs (guarded st) (postCommitPrints st) ''.bail'' body)"
    using p len by simp
  from gatingGuard_cases [of "guarded st" "postCommitPrints st" "''.bail''" body]
  obtain gate rest where g:
    "newInstrs (guarded st) (postCommitPrints st) ''.bail'' body =
       Op \<lparr>op = ''speculate'', dest = None, type = None, args = None, val = None,
           labels = None, funcs = None\<rparr> # guarded st @ gate @
       Op \<lparr>op = ''commit'', dest = None, type = None, args = None, val = None,
           labels = None, funcs = None\<rparr> # rest \<and>
     list_ex isGuard (guarded st @ gate) \<and>
     (list_ex isGuard (guarded st) \<longrightarrow> gate = []) \<and>
     (\<not> list_ex isGuard (guarded st) \<longrightarrow>
        (\<forall>before i d after.
           guarded st = before @ Op i # after \<and> dest i = Some d \<and> d \<noteq> [] \<and>
           type i = Some (PrimType ''bool'') \<and>
           (\<forall>j e. Op j \<in> set after \<and> dest j = Some e \<and> e \<noteq> []
                    \<longrightarrow> type j \<noteq> Some (PrimType ''bool''))
           \<longrightarrow> gate =
                 [Op \<lparr>op = ''guard'', dest = None, type = None, args = Some [d], val = None,
                      labels = Some [''.bail''], funcs = None\<rparr>]) \<and>
        ((\<forall>j e. Op j \<in> set (guarded st) \<and> dest j = Some e \<and> e \<noteq> []
                  \<longrightarrow> type j \<noteq> Some (PrimType ''bool''))
           \<longrightarrow> gate =
                 [Op \<lparr>op = ''const'', dest = Some ''_spec_true_guard'',
                      type = Some (PrimType ''bool''), args = None, val = Some (VBool True),
                      labels = None, funcs = None\<rparr>,
                  Op \<lparr>op = ''guard'', dest = None, type = None,
                      args = Some [''_spec_true_guard''], val = None,
                      labels = Some [''.bail''], funcs = None\<rparr>]))"
    by (elim exE)
  show ?thesis
    apply (rule exI [of _ idx])
    apply (rule exI [of _ st])
    apply (rule exI [of _ gate])
    apply (rule exI [of _ rest])
    using idx low new g apply simp
    done
qed

text \<open>
  Claim C6. Whenever \<^verbatim>\<open>main\<close> produces a program, the new body of the function \<^verbatim>\<open>main\<close> is a
  front part without any label, the bail label, the original body unchanged, and one \<^verbatim>\<open>ret\<close>
  exactly if the original body is empty or does not end in an operation \<^verbatim>\<open>ret\<close>. The last
  instruction of the new body is a \<^verbatim>\<open>ret\<close>.
\<close>

theorem fallback_copy:
  assumes ok: "main A t prog = Inr prog'"
  shows
    "\<exists>idx body front new.
       findIndex (\<lambda>f. name f = ''main'') (functions_of prog) = Some idx \<and>
       instrs (functions_of prog ! idx) = Some body \<and>
       instrs (functions_of prog' ! idx) = Some new \<and>
       new = front @ Label ''.bail'' # body @
               (if body \<noteq> [] \<and> (\<exists>i. last body = Op i \<and> op i = ''ret'') then []
                else [Op \<lparr>op = ''ret'', dest = None, type = None, args = None, val = None,
                          labels = None, funcs = None\<rparr>]) \<and>
       \<not> list_ex isLabel front \<and>
       (\<exists>i. last new = Op i \<and> op i = ''ret'')"
  using ok
proof (rule main_InrE)
  fix st idx body
  assume low: "guardLowering (buildConstMap (optimizeTrace A t)) ''.bail'' (optimizeTrace A t)
                 = Inr st"
    and idx: "findIndex (\<lambda>f. name f = ''main'') (functions_of prog) = Some idx"
    and len: "idx < length (functions_of prog)"
    and body: "instrs (functions_of prog ! idx) = Some body"
    and p: "functions_of prog' = (functions_of prog)
        [idx := (functions_of prog ! idx)
           \<lparr>instrs := Some (newInstrs (guarded st) (postCommitPrints st) ''.bail'' body)\<rparr>]"
  let ?front = "Op (mkOp ''speculate'') # guarded st @ gatingGuard (guarded st) ''.bail'' @
                Op (mkOp ''commit'') # postCommitPrints st @ [Op (mkOp ''ret'')]"
  let ?new = "newInstrs (guarded st) (postCommitPrints st) ''.bail'' body"
  have new: "instrs (functions_of prog' ! idx) = Some ?new"
    using p len by simp
  have nl: "\<not> list_ex isLabel ?front"
    using guardLowering_no_label [OF low] gatingGuard_no_label [of "guarded st" "''.bail''"]
    by (auto simp: list_ex_iff)
  have eq: "?new = ?front @ Label ''.bail'' # body @
               (if body \<noteq> [] \<and> (\<exists>i. last body = Op i \<and> op i = ''ret'') then []
                else [Op \<lparr>op = ''ret'', dest = None, type = None, args = None, val = None,
                          labels = None, funcs = None\<rparr>])"
    using newInstrs_fallback [of "guarded st" "postCommitPrints st" "''.bail''" body]
    by (simp add: mkOp_def)
  have lst: "\<exists>i. last ?new = Op i \<and> op i = ''ret''"
    by (rule newInstrs_last)
  show ?thesis
    apply (rule exI [of _ idx])
    apply (rule exI [of _ body])
    apply (rule exI [of _ ?front])
    apply (rule exI [of _ ?new])
    using idx body new eq nl lst apply blast
    done
qed

text \<open>
  Claim C9. Whenever \<^verbatim>\<open>main\<close> produces a program, it has as many functions as the input
  program; with \<open>idx\<close> the position of the first function named \<^verbatim>\<open>main\<close>, the function at every
  other position is the one of the input program, and the function at \<open>idx\<close> has the name,
  the parameters and the return type of the original.
\<close>

theorem only_main_replaced:
  assumes ok: "main A t prog = Inr prog'"
  shows
    "\<exists>idx. findIndex (\<lambda>f. name f = ''main'') (functions_of prog) = Some idx \<and>
       idx < length (functions_of prog) \<and>
       length (functions_of prog') = length (functions_of prog) \<and>
       (\<forall>j < length (functions_of prog). j \<noteq> idx \<longrightarrow>
            functions_of prog' ! j = functions_of prog ! j) \<and>
       name (functions_of prog' ! idx) = ''main'' \<and>
       name (functions_of prog' ! idx) = name (functions_of prog ! idx) \<and>
       params (functions_of prog' ! idx) = params (functions_of prog ! idx) \<and>
       rettype (functions_of prog' ! idx) = rettype (functions_of prog ! idx)"
  using ok
proof (rule main_InrE)
  fix st idx body
  assume idx: "findIndex (\<lambda>f. name f = ''main'') (functions_of prog) = Some idx"
    and len: "idx < length (functions_of prog)"
    and nm: "name (functions_of prog ! idx) = ''main''"
    and p: "functions_of prog' = (functions_of prog)
        [idx := (functions_of prog ! idx)
           \<lparr>instrs := Some (newInstrs (guarded st) (postCommitPrints st) ''.bail'' body)\<rparr>]"
  show ?thesis using idx len nm p by simp
qed


theorem gating_guard_witness:
  "main small_int_arith scenario_trace scenario_prog = Inr scenario_result \<and>
   (\<exists>idx (st :: int lower_state) gate rest.
      findIndex (\<lambda>f. name f = ''main'') (functions_of scenario_prog) = Some idx \<and>
      instrs (functions_of scenario_result ! idx) =
         Some (Op \<lparr>op = ''speculate'', dest = None, type = None, args = None, val = None,
                   labels = None, funcs = None\<rparr> # guarded st @ gate @
               Op \<lparr>op = ''commit'', dest = None, type = None, args = None, val = None,
                   labels = None, funcs = None\<rparr> # rest) \<and>
      list_ex isGuard (guarded st @ gate))"
proof
  show "main small_int_arith scenario_trace scenario_prog = Inr scenario_result"
    by (rule scenario_main)
  from gating_guard [OF scenario_main]
  show "\<exists>idx (st :: int lower_state) gate rest.
      findIndex (\<lambda>f. name f = ''main'') (functions_of scenario_prog) = Some idx \<and>
      instrs (functions_of scenario_result ! idx) =
         Some (Op \<lparr>op = ''speculate'', dest = None, type = None, args = None, val = None,
                   labels = None, funcs = None\<rparr> # guarded st @ gate @
               Op \<lparr>op = ''commit'', dest = None, type = None, args = None, val = None,
                   labels = None, funcs = None\<rparr> # rest) \<and>
      list_ex isGuard (guarded st @ gate)"
    by blast
qed

theorem fallback_copy_witness:
  "main small_int_arith scenario_trace scenario_prog = Inr scenario_result \<and>
   (\<exists>idx front new.
      instrs (functions_of scenario_prog ! idx) = Some scenario_trace \<and>
      instrs (functions_of scenario_result ! idx) = Some new \<and>
      new = front @ Label ''.bail'' # scenario_trace @ [Op (mkOp ''ret'')] \<and>
      (\<exists>i. last new = Op i \<and> op i = ''ret''))"
proof
  show "main small_int_arith scenario_trace scenario_prog = Inr scenario_result"
    by (rule scenario_main)
  from fallback_copy [OF scenario_main] obtain idx body front new where h:
    "findIndex (\<lambda>f. name f = ''main'') (functions_of scenario_prog) = Some idx \<and>
     instrs (functions_of scenario_prog ! idx) = Some body \<and>
     instrs (functions_of scenario_result ! idx) = Some new \<and>
     new = front @ Label ''.bail'' # body @
             (if body \<noteq> [] \<and> (\<exists>i. last body = Op i \<and> op i = ''ret'') then []
              else [Op \<lparr>op = ''ret'', dest = None, type = None, args = None, val = None,
                        labels = None, funcs = None\<rparr>]) \<and>
     \<not> list_ex isLabel front \<and>
     (\<exists>i. last new = Op i \<and> op i = ''ret'')"
    by (elim exE)
  have i1: "idx = 1" using h by (simp add: scenario_prog_def helperFunc_def mainFunc_def)
  have b: "body = scenario_trace" using h i1 by (simp add: scenario_prog_def mainFunc_def)
  have nr: "\<not> (scenario_trace \<noteq> [] \<and> (\<exists>i. last scenario_trace = Op i \<and> op i = ''ret''))"
    by (simp add: scenario_trace_def effect_def)
  have "instrs (functions_of scenario_prog ! idx) = Some scenario_trace \<and>
      instrs (functions_of scenario_result ! idx) = Some new \<and>
      new = front @ Label ''.bail'' # scenario_trace @ [Op (mkOp ''ret'')] \<and>
      (\<exists>i. last new = Op i \<and> op i = ''ret'')"
    using h b nr by (simp add: mkOp_def)
  then show "\<exists>idx front new.
      instrs (functions_of scenario_prog ! idx) = Some scenario_trace \<and>
      instrs (functions_of scenario_result ! idx) = Some new \<and>
      new = front @ Label ''.bail'' # scenario_trace @ [Op (mkOp ''ret'')] \<and>
      (\<exists>i. last new = Op i \<and> op i = ''ret'')"
    by (intro exI)
qed

theorem only_main_replaced_witness:
  "main small_int_arith scenario_trace scenario_prog = Inr scenario_result \<and>
   functions_of scenario_result ! 0 = functions_of scenario_prog ! 0 \<and>
   name (functions_of scenario_result ! 1) = ''main'' \<and>
   params (functions_of scenario_result ! 1) = params (functions_of scenario_prog ! 1) \<and>
   rettype (functions_of scenario_result ! 1) = rettype (functions_of scenario_prog ! 1)"
proof -
  from only_main_replaced [OF scenario_main] obtain idx where h:
    "findIndex (\<lambda>f. name f = ''main'') (functions_of scenario_prog) = Some idx \<and>
       idx < length (functions_of scenario_prog) \<and>
       length (functions_of scenario_result) = length (functions_of scenario_prog) \<and>
       (\<forall>j < length (functions_of scenario_prog). j \<noteq> idx \<longrightarrow>
            functions_of scenario_result ! j = functions_of scenario_prog ! j) \<and>
       name (functions_of scenario_result ! idx) = ''main'' \<and>
       name (functions_of scenario_result ! idx) = name (functions_of scenario_prog ! idx) \<and>
       params (functions_of scenario_result ! idx) = params (functions_of scenario_prog ! idx) \<and>
       rettype (functions_of scenario_result ! idx) = rettype (functions_of scenario_prog ! idx)"
    by (elim exE)
  have i1: "idx = 1" using h by (simp add: scenario_prog_def helperFunc_def mainFunc_def)
  have l: "(0::nat) < length (functions_of scenario_prog)" by (simp add: scenario_prog_def)
  from h i1 l have "functions_of scenario_result ! 0 = functions_of scenario_prog ! 0"
    by auto
  with h i1 scenario_main show ?thesis by simp
qed

lemma guardLowering_skip_labels:
  "guardLowering cm bail t = guardLowering cm bail (filter (\<lambda>x. \<not> isLabel x) t)"
  unfolding guardLowering_def by (rule lowerLoop_skip_labels)

lemma main_label_only:
  assumes "t \<noteq> []" and "filter (\<lambda>x. \<not> isLabel x) t = []" and "main A t prog = Inl e"
  shows "e = MissingEntry \<or> e = MissingBody \<or> e = StructuralInvalid"
proof -
  have o: "optimizeTrace A t = []"
    using optimizeTrace_skip_labels [of A t] assms(2)
    by (simp add: optimizeTrace_def foldPass_def)
  have g: "guardLowering (buildConstMap []) ''.bail'' ([] :: 'a instruction list) = Inr initState"
    by (simp add: guardLowering_def)
  show ?thesis
    using assms(1,3) o g
    by (auto simp: main_def Let_def validateBrilProgram_def
        split: option.splits if_splits sum.splits)
qed

text \<open>
  Claim C10. The Trace Reducer and Guard Lowering give on a sequence with label entries the
  result they give on the sequence without them, and neither the reduced trace nor the
  Guarded Sequence holds a label. A trace with labels makes \<^verbatim>\<open>main\<close> behave as the trace without
  them does; a trace of labels only is not empty, and \<^verbatim>\<open>main\<close> can then fail only for a reason
  that lies in the program.
\<close>

theorem labels_skipped:
  "optimizeTrace A t = optimizeTrace A (filter (\<lambda>x. \<not> isLabel x) t) \<and>
   \<not> list_ex isLabel (optimizeTrace A t) \<and>
   guardLowering constMap bailLabel t
     = guardLowering constMap bailLabel (filter (\<lambda>x. \<not> isLabel x) t) \<and>
   (\<forall>st. guardLowering constMap bailLabel t = Inr st \<longrightarrow> \<not> list_ex isLabel (guarded st)) \<and>
   (filter (\<lambda>x. \<not> isLabel x) t \<noteq> [] \<longrightarrow>
      main A t prog = main A (filter (\<lambda>x. \<not> isLabel x) t) prog) \<and>
   (t \<noteq> [] \<and> filter (\<lambda>x. \<not> isLabel x) t = [] \<longrightarrow>
      (\<forall>e. main A t prog = Inl e \<longrightarrow>
           e = MissingEntry \<or> e = MissingBody \<or> e = StructuralInvalid))"
proof (intro conjI impI allI)
  show "optimizeTrace A t = optimizeTrace A (filter (\<lambda>x. \<not> isLabel x) t)"
    by (rule optimizeTrace_skip_labels)
  show "\<not> list_ex isLabel (optimizeTrace A t)"
    by (rule optimizeTrace_no_label)
  show "guardLowering constMap bailLabel t
     = guardLowering constMap bailLabel (filter (\<lambda>x. \<not> isLabel x) t)"
    by (rule guardLowering_skip_labels)
next
  fix st
  assume "guardLowering constMap bailLabel t = Inr st"
  then show "\<not> list_ex isLabel (guarded st)"
    using guardLowering_no_label by blast
next
  assume ne: "filter (\<lambda>x. \<not> isLabel x) t \<noteq> []"
  then have "t \<noteq> []" by auto
  with ne show "main A t prog = main A (filter (\<lambda>x. \<not> isLabel x) t) prog"
    using optimizeTrace_skip_labels [of A t] by (simp add: main_def)
next
  fix e
  assume "t \<noteq> [] \<and> filter (\<lambda>x. \<not> isLabel x) t = []" and "main A t prog = Inl e"
  then show "e = MissingEntry \<or> e = MissingBody \<or> e = StructuralInvalid"
    using main_label_only [of t A prog e] by simp
qed

theorem labels_skipped_witness:
  "optimizeTrace small_int_arith labelled_trace
     = [constInt ''c'' 7, Op (effect ''print'' [''c''])] \<and>
   main small_int_arith labelled_trace scenario_prog
     = main small_int_arith [constInt ''c'' 7, Op (effect ''print'' [''c''])] scenario_prog"
proof -
  have f: "filter (\<lambda>x. \<not> isLabel x) labelled_trace
             = [constInt ''c'' 7, Op (effect ''print'' [''c''])]"
    by (simp add: labelled_trace_def constInt_def)
  have o: "optimizeTrace small_int_arith [constInt ''c'' 7, Op (effect ''print'' [''c''])]
             = [constInt ''c'' 7, Op (effect ''print'' [''c''])]"
    by (simp add: optimizeTrace_def foldPass_def collectUsed_def constInt_def effect_def
        tryFold_def)
  note T = labels_skipped [of small_int_arith labelled_trace Map.empty "''.bail''" scenario_prog]
  have ne: "filter (\<lambda>x. \<not> isLabel x) labelled_trace \<noteq> []" using f by simp
  have 1: "optimizeTrace small_int_arith labelled_trace
             = optimizeTrace small_int_arith (filter (\<lambda>x. \<not> isLabel x) labelled_trace)"
    using T by (elim conjE)
  have 2: "main small_int_arith labelled_trace scenario_prog
             = main small_int_arith (filter (\<lambda>x. \<not> isLabel x) labelled_trace) scenario_prog"
    using T ne by (elim conjE) (erule mp)
  show ?thesis using 1 2 unfolding f o by simp
qed


text \<open>
  Claim C8, as stated, fails: on the trace of the scenario the Reducer does not keep the four
  instructions. It folds the \<^verbatim>\<open>add\<close> into \<^verbatim>\<open>const c = 7\<close>, after which neither \<open>a\<close> nor \<open>b\<close> is an
  argument of any instruction, and drops both constants.
\<close>

theorem scenario_reducer_counterexample:
  "optimizeTrace small_int_arith scenario_trace \<noteq> scenario_trace \<and>
   constInt ''a'' 3 \<notin> set (optimizeTrace small_int_arith scenario_trace) \<and>
   constInt ''b'' 4 \<notin> set (optimizeTrace small_int_arith scenario_trace) \<and>
   Op (binop ''add'' ''c'' ''a'' ''b'') \<notin> set (optimizeTrace small_int_arith scenario_trace)"
  unfolding scenario_reduced
  by (simp add: scenario_trace_def constInt_def binop_def effect_def)

text \<open>
  Claim C8, amended. On the trace of the scenario the reduced trace is \<^verbatim>\<open>const c:int = 7;
  print c\<close>; Guard Lowering keeps the constant, emits for the print \<^verbatim>\<open>const _spec_exp_0:int = 7\<close>,
  \<^verbatim>\<open>eq _spec_cmp_1 = c _spec_exp_0\<close> and \<^verbatim>\<open>guard _spec_cmp_1 .bail\<close>, and queues the print. For a
  program whose first function named \<^verbatim>\<open>main\<close> has the body \<open>body\<close> and all of whose functions
  have an instruction list, the new body of \<^verbatim>\<open>main\<close> is \<^verbatim>\<open>speculate\<close>, these four instructions,
  \<^verbatim>\<open>commit\<close>, \<^verbatim>\<open>print c\<close>, \<^verbatim>\<open>ret\<close>, the bail label, \<open>body\<close>, and a \<^verbatim>\<open>ret\<close> unless \<open>body\<close> ends in one.
\<close>

theorem scenario_assembled:
  "optimizeTrace small_int_arith scenario_trace
     = [constInt ''c'' 7, Op (effect ''print'' [''c''])] \<and>
   guardLowering (buildConstMap (optimizeTrace small_int_arith scenario_trace)) ''.bail''
       (optimizeTrace small_int_arith scenario_trace)
     = Inr \<lparr>guarded =
              [constInt ''c'' 7,
               constInt ''_spec_exp_0'' 7,
               Op \<lparr>op = ''eq'', dest = Some ''_spec_cmp_1'', type = None,
                   args = Some [''c'', ''_spec_exp_0''], val = None, labels = None,
                   funcs = None\<rparr>,
               Op \<lparr>op = ''guard'', dest = None, type = None, args = Some [''_spec_cmp_1''],
                   val = None, labels = Some [''.bail''], funcs = None\<rparr>],
            postCommitPrints = [Op (effect ''print'' [''c''])], synthCounter = 2\<rparr> \<and>
   (findIndex (\<lambda>f. name f = ''main'') (functions_of prog) = Some idx \<and>
    instrs (functions_of prog ! idx) = Some body \<and>
    list_all (\<lambda>f. instrs f \<noteq> None) (functions_of prog) \<longrightarrow>
      main small_int_arith scenario_trace prog =
        Inr (prog\<lparr>functions_of := (functions_of prog)
               [idx := (functions_of prog ! idx)
                  \<lparr>instrs := Some
                     ([Op (mkOp ''speculate''),
                       constInt ''c'' 7,
                       constInt ''_spec_exp_0'' 7,
                       Op \<lparr>op = ''eq'', dest = Some ''_spec_cmp_1'', type = None,
                           args = Some [''c'', ''_spec_exp_0''], val = None, labels = None,
                           funcs = None\<rparr>,
                       Op \<lparr>op = ''guard'', dest = None, type = None,
                           args = Some [''_spec_cmp_1''], val = None,
                           labels = Some [''.bail''], funcs = None\<rparr>,
                       Op (mkOp ''commit''),
                       Op (effect ''print'' [''c'']),
                       Op (mkOp ''ret''),
                       Label ''.bail''] @ body @
                      (if body \<noteq> [] \<and> (\<exists>i. last body = Op i \<and> op i = ''ret'') then []
                       else [Op (mkOp ''ret'')]))\<rparr>]\<rparr>))"
proof (intro conjI impI)
  show "optimizeTrace small_int_arith scenario_trace
     = [constInt ''c'' 7, Op (effect ''print'' [''c''])]"
    by (rule scenario_reduced)
  show "guardLowering (buildConstMap (optimizeTrace small_int_arith scenario_trace)) ''.bail''
       (optimizeTrace small_int_arith scenario_trace)
     = Inr \<lparr>guarded =
              [constInt ''c'' 7,
               constInt ''_spec_exp_0'' 7,
               Op \<lparr>op = ''eq'', dest = Some ''_spec_cmp_1'', type = None,
                   args = Some [''c'', ''_spec_exp_0''], val = None, labels = None,
                   funcs = None\<rparr>,
               Op \<lparr>op = ''guard'', dest = None, type = None, args = Some [''_spec_cmp_1''],
                   val = None, labels = Some [''.bail''], funcs = None\<rparr>],
            postCommitPrints = [Op (effect ''print'' [''c''])], synthCounter = 2\<rparr>"
    unfolding scenario_reduced scenario_constMap by (rule scenario_lowered)
next
  assume h: "findIndex (\<lambda>f. name f = ''main'') (functions_of prog) = Some idx \<and>
    instrs (functions_of prog ! idx) = Some body \<and>
    list_all (\<lambda>f. instrs f \<noteq> None) (functions_of prog)"
  have ne: "scenario_trace \<noteq> []" by (simp add: scenario_trace_def)
  have new: "newInstrs
      [constInt ''c'' 7,
             constInt ''_spec_exp_0'' 7,
             Op \<lparr>op = ''eq'', dest = Some ''_spec_cmp_1'', type = None,
                 args = Some [''c'', ''_spec_exp_0''], val = None, labels = None,
                 funcs = None\<rparr>,
             Op \<lparr>op = ''guard'', dest = None, type = None, args = Some [''_spec_cmp_1''],
                 val = None, labels = Some [''.bail''], funcs = None\<rparr>]
      [Op (effect ''print'' [''c''])] ''.bail'' body
      = [Op (mkOp ''speculate''),
                       constInt ''c'' 7,
                       constInt ''_spec_exp_0'' 7,
                       Op \<lparr>op = ''eq'', dest = Some ''_spec_cmp_1'', type = None,
                           args = Some [''c'', ''_spec_exp_0''], val = None, labels = None,
                           funcs = None\<rparr>,
                       Op \<lparr>op = ''guard'', dest = None, type = None,
                           args = Some [''_spec_cmp_1''], val = None,
                           labels = Some [''.bail''], funcs = None\<rparr>,
                       Op (mkOp ''commit''),
                       Op (effect ''print'' [''c'']),
                       Op (mkOp ''ret''),
                       Label ''.bail''] @ body @
                      (if body \<noteq> [] \<and> (\<exists>i. last body = Op i \<and> op i = ''ret'') then []
                       else [Op (mkOp ''ret'')])"
    unfolding newInstrs_fallback
    by (simp add: gatingGuard_def hasGuard_def)
  show "main small_int_arith scenario_trace prog =
        Inr (prog\<lparr>functions_of := (functions_of prog)
               [idx := (functions_of prog ! idx)
                  \<lparr>instrs := Some
                     ([Op (mkOp ''speculate''),
                       constInt ''c'' 7,
                       constInt ''_spec_exp_0'' 7,
                       Op \<lparr>op = ''eq'', dest = Some ''_spec_cmp_1'', type = None,
                           args = Some [''c'', ''_spec_exp_0''], val = None, labels = None,
                           funcs = None\<rparr>,
                       Op \<lparr>op = ''guard'', dest = None, type = None,
                           args = Some [''_spec_cmp_1''], val = None,
                           labels = Some [''.bail''], funcs = None\<rparr>,
                       Op (mkOp ''commit''),
                       Op (effect ''print'' [''c'']),
                       Op (mkOp ''ret''),
                       Label ''.bail''] @ body @
                      (if body \<noteq> [] \<and> (\<exists>i. last body = Op i \<and> op i = ''ret'') then []
                       else [Op (mkOp ''ret'')]))\<rparr>]\<rparr>)"
    unfolding main_Inr_iff scenario_reduced scenario_constMap
    using ne h scenario_lowered new
    by simp
qed

theorem scenario_assembled_witness:
  "main small_int_arith scenario_trace scenario_prog =
     Inr \<lparr>functions_of =
            [helperFunc,
             \<lparr>name = ''main'', params = None, rettype = None,
              instrs = Some
                ([Op (mkOp ''speculate''),
                  constInt ''c'' 7,
                  constInt ''_spec_exp_0'' 7,
                  Op \<lparr>op = ''eq'', dest = Some ''_spec_cmp_1'', type = None,
                      args = Some [''c'', ''_spec_exp_0''], val = None, labels = None,
                      funcs = None\<rparr>,
                  Op \<lparr>op = ''guard'', dest = None, type = None,
                      args = Some [''_spec_cmp_1''], val = None,
                      labels = Some [''.bail''], funcs = None\<rparr>,
                  Op (mkOp ''commit''),
                  Op (effect ''print'' [''c'']),
                  Op (mkOp ''ret''),
                  Label ''.bail'',
                  constInt ''a'' 3, constInt ''b'' 4, Op (binop ''add'' ''c'' ''a'' ''b''),
                  Op (effect ''print'' [''c'']),
                  Op (mkOp ''ret'')])\<rparr>]\<rparr>"
proof -
  have h: "findIndex (\<lambda>f. name f = ''main'') (functions_of scenario_prog) = Some 1 \<and>
    instrs (functions_of scenario_prog ! 1) = Some scenario_trace \<and>
    list_all (\<lambda>f. instrs f \<noteq> None) (functions_of scenario_prog)"
    by (simp add: scenario_prog_def helperFunc_def mainFunc_def)
  have nr: "\<not> (scenario_trace \<noteq> [] \<and> (\<exists>i. last scenario_trace = Op i \<and> op i = ''ret''))"
    by (simp add: scenario_trace_def effect_def)
  note T = mp [OF scenario_assembled [of scenario_prog 1 scenario_trace,
                    THEN conjunct2, THEN conjunct2] h]
  show ?thesis
    unfolding T using nr
    by (simp add: scenario_prog_def mainFunc_def scenario_trace_def)
qed

end
